theory Spec2Isabelle
  imports Main "HOL-Library.Word"
begin

unbundle bit_operations_syntax

section \<open>The ARM64 NIC driver: data model\<close>

text \<open>
  The development embeds the class \<open>ARM64NICDriver\<close> of the header
  \<open>arm64_nic_driver.hpp\<close> (the build with \<open>__aarch64__\<close> defined). Pointers are
  64-bit words, ring indices and registers 32-bit words, counters 64-bit words.
\<close>

type_synonym addr = "64 word"
type_synonym memory = "64 word \<Rightarrow> 8 word"

subsection \<open>Register offsets, control bits and ring configuration\<close>

definition REG_CTRL :: "32 word" where "REG_CTRL = 0x0000"
definition REG_STATUS :: "32 word" where "REG_STATUS = 0x0008"
definition REG_RX_CTRL :: "32 word" where "REG_RX_CTRL = 0x0100"
definition REG_TX_CTRL :: "32 word" where "REG_TX_CTRL = 0x0400"

definition REG_RX_DESC_BASE_LO :: "32 word" where "REG_RX_DESC_BASE_LO = 0x2800"
definition REG_RX_DESC_BASE_HI :: "32 word" where "REG_RX_DESC_BASE_HI = 0x2804"
definition REG_RX_DESC_LEN :: "32 word" where "REG_RX_DESC_LEN = 0x2808"
definition REG_RX_DESC_HEAD :: "32 word" where "REG_RX_DESC_HEAD = 0x2810"
definition REG_RX_DESC_TAIL :: "32 word" where "REG_RX_DESC_TAIL = 0x2818"

definition REG_TX_DESC_BASE_LO :: "32 word" where "REG_TX_DESC_BASE_LO = 0x3800"
definition REG_TX_DESC_BASE_HI :: "32 word" where "REG_TX_DESC_BASE_HI = 0x3804"
definition REG_TX_DESC_LEN :: "32 word" where "REG_TX_DESC_LEN = 0x3808"
definition REG_TX_DESC_HEAD :: "32 word" where "REG_TX_DESC_HEAD = 0x3810"
definition REG_TX_DESC_TAIL :: "32 word" where "REG_TX_DESC_TAIL = 0x3818"

definition CTRL_RESET :: "32 word" where "CTRL_RESET = push_bit 26 1"
definition CTRL_RX_ENABLE :: "32 word" where "CTRL_RX_ENABLE = push_bit 1 1"
definition CTRL_TX_ENABLE :: "32 word" where "CTRL_TX_ENABLE = push_bit 0 1"

definition DESC_STATUS_DD :: "32 word" where "DESC_STATUS_DD = push_bit 0 1"
definition DESC_STATUS_EOP :: "32 word" where "DESC_STATUS_EOP = push_bit 1 1"

text \<open>
  The source fixes both ring sizes at 2048. Every function below that uses a ring size
  takes it as its first argument, so that the behaviour on a ring of another size (the
  eight-slot ring of the test scenario) is the same definition at another argument;
  \<open>RX_RING_SIZE\<close> and \<open>TX_RING_SIZE\<close> are the values the header passes.
\<close>

definition RX_RING_SIZE :: "32 word" where "RX_RING_SIZE = 2048"
definition TX_RING_SIZE :: "32 word" where "TX_RING_SIZE = 2048"
definition MAX_PACKET_SIZE :: "32 word" where "MAX_PACKET_SIZE = 9216"

text \<open>\<open>sizeof(RxDescriptor)\<close> and \<open>sizeof(TxDescriptor)\<close>: both are \<open>alignas(64)\<close>
  structs padded to one cache line.\<close>

definition sizeof_RxDescriptor :: "32 word" where "sizeof_RxDescriptor = 64"
definition sizeof_TxDescriptor :: "32 word" where "sizeof_TxDescriptor = 64"

text \<open>\<open>MAP_FAILED\<close> is \<open>(void * ) -1\<close>; the null pointer is 0.\<close>

definition MAP_FAILED :: addr where "MAP_FAILED = - 1"

subsection \<open>Descriptors\<close>

text \<open>The reserved padding words of both descriptor structs are never read or written by
  the driver and are left out.\<close>

record RxDescriptor =
  rx_buffer_addr :: "64 word"
  rx_length :: "16 word"
  rx_checksum :: "16 word"
  rx_status :: "32 word"
  rx_rss_hash :: "32 word"
  rx_timestamp :: "64 word"

record TxDescriptor =
  buffer_addr :: "64 word"
  cmd_type_len :: "32 word"
  status :: "32 word"

text \<open>What \<open>memset(ring, 0, ...)\<close> leaves in a descriptor.\<close>

definition zero_rx_desc :: RxDescriptor where
  "zero_rx_desc = \<lparr>rx_buffer_addr = 0, rx_length = 0, rx_checksum = 0, rx_status = 0,
                   rx_rss_hash = 0, rx_timestamp = 0\<rparr>"

definition zero_tx_desc :: TxDescriptor where
  "zero_tx_desc = \<lparr>buffer_addr = 0, cmd_type_len = 0, status = 0\<rparr>"

subsection \<open>Effects and the driver state\<close>

text \<open>
  Everything the driver does to the world outside its own fields is recorded, in program
  order, in a trace: stores to device registers, loads from them (with the value the
  device returned), the mapping and unmapping of the register window, heap allocations
  and releases. \<open>HandlerCall\<close> stands for a call out
  of the driver into caller-supplied code with a buffer pointer and a length; it is part
  of the vocabulary so that the presence or absence of such a call can be stated.
\<close>

datatype effect =
    RegWrite "32 word" "32 word"
  | RegRead "32 word" "32 word"
  | Mmap addr "64 word"
  | Munmap addr "64 word"
  | Alloc addr
  | Free addr
  | HandlerCall addr "16 word"

text \<open>
  The private members of the class, followed by the memory they point to: the two
  descriptor arrays (indexed like the C arrays, by a 32-bit index), the byte-addressed
  memory that holds the packet buffers and the caller's data, and the trace. The
  descriptor arrays are kept apart from the byte-addressed memory: the blocks that the
  allocator hands out are taken to be disjoint from each other and from the caller's
  data, so a store to a packet buffer is never a store to a descriptor. The member
  \<open>pci_address_\<close> is only used to build the path opened by \<open>map_bar0\<close>, whose outcome
  is an input of the model. The source's member names end in an underscore, which a HOL
  name cannot; \<open>rx_ring\<close> and \<open>tx_ring\<close> are the pointers, \<open>rx_ring_mem\<close> and
  \<open>tx_ring_mem\<close> the arrays behind them.
\<close>

record driver =
  bar0_base :: addr
  bar0_size :: "64 word"
  rx_ring :: addr
  tx_ring :: addr
  rx_buffers :: addr
  tx_buffers :: addr
  rx_head :: "32 word"
  tx_head :: "32 word"
  tx_tail :: "32 word"
  packets_received :: "64 word"
  packets_sent :: "64 word"
  initialized :: bool
  rx_ring_mem :: "32 word \<Rightarrow> RxDescriptor"
  tx_ring_mem :: "32 word \<Rightarrow> TxDescriptor"
  mem :: memory
  trace :: "effect list"

subsection \<open>Register access and address translation\<close>

definition emit :: "effect \<Rightarrow> driver \<Rightarrow> driver" where
  "emit e s = s\<lparr>trace := trace s @ [e]\<rparr>"

definition write_reg :: "32 word \<Rightarrow> 32 word \<Rightarrow> driver \<Rightarrow> driver" where
  "write_reg offset v s = emit (RegWrite offset v) s"

text \<open>A register load returns what the device presents; the value is an input of the
  model and the load is recorded.\<close>

definition read_reg :: "32 word \<Rightarrow> 32 word \<Rightarrow> driver \<Rightarrow> driver" where
  "read_reg offset v s = emit (RegRead offset v) s"

definition get_physical_addr :: "addr \<Rightarrow> 64 word" where
  "get_physical_addr virt_addr = virt_addr"

section \<open>Copying packet bytes\<close>

text \<open>
  The trailing loop of \<open>neon_memcpy\<close>, \<open>while (n--) *d++ = *s++\<close>, is the byte-wise copy
  of the source; \<open>std::memcpy\<close> on the short path is modelled by the same loop.
\<close>

fun copy_bytes :: "memory \<Rightarrow> addr \<Rightarrow> addr \<Rightarrow> nat \<Rightarrow> memory" where
  "copy_bytes m d s 0 = m"
| "copy_bytes m d s (Suc n) = copy_bytes (m(d := m s)) (d + 1) (s + 1) n"

definition memcpy :: "memory \<Rightarrow> addr \<Rightarrow> addr \<Rightarrow> nat \<Rightarrow> memory" where
  "memcpy m d s n = copy_bytes m d s n"

text \<open>\<open>vld1q_u8\<close> loads sixteen consecutive bytes into a vector register, \<open>vst1q_u8\<close>
  stores the sixteen lanes to consecutive bytes.\<close>

definition vld1q_u8 :: "memory \<Rightarrow> addr \<Rightarrow> 8 word list" where
  "vld1q_u8 m p = map (\<lambda>i. m (p + of_nat i)) [0..<16]"

fun store_bytes :: "memory \<Rightarrow> addr \<Rightarrow> 8 word list \<Rightarrow> memory" where
  "store_bytes m p [] = m"
| "store_bytes m p (b # bs) = store_bytes (m(p := b)) (p + 1) bs"

definition vst1q_u8 :: "memory \<Rightarrow> addr \<Rightarrow> 8 word list \<Rightarrow> memory" where
  "vst1q_u8 m p v = store_bytes m p v"

text \<open>One iteration of the vector loop: four loads, then four stores.\<close>

definition neon_block :: "memory \<Rightarrow> addr \<Rightarrow> addr \<Rightarrow> memory" where
  "neon_block m d s =
     (let v0 = vld1q_u8 m s;
          v1 = vld1q_u8 m (s + 16);
          v2 = vld1q_u8 m (s + 32);
          v3 = vld1q_u8 m (s + 48);
          m0 = vst1q_u8 m d v0;
          m1 = vst1q_u8 m0 (d + 16) v1;
          m2 = vst1q_u8 m1 (d + 32) v2
      in vst1q_u8 m2 (d + 48) v3)"

function neon_memcpy :: "memory \<Rightarrow> addr \<Rightarrow> addr \<Rightarrow> nat \<Rightarrow> memory" where
  "neon_memcpy m d s n =
     (if 64 \<le> n then neon_memcpy (neon_block m d s) (d + 64) (s + 64) (n - 64)
      else copy_bytes m d s n)"
  by pat_completeness auto
termination
  by (relation "measure (\<lambda>(m, d, s, n). n)") auto

declare neon_memcpy.simps [simp del]

section \<open>The transmit and receive paths\<close>

text \<open>
  The model is sequential: the load-acquire at the start of \<open>receive_packet\<close>, the
  store-release and the \<open>dmb ish\<close> barrier in \<open>send_packet\<close> and the barriers inside
  \<open>read_reg\<close> and \<open>write_reg\<close> are a plain load, a plain store and nothing; the
  prefetch of the next RX descriptor has no effect on the state.

  \<open>reclaim_tx_descriptors\<close> is a loop whose exit depends on the cursors it is started
  with; not returning is the value \<open>None\<close>.
\<close>

partial_function (option) reclaim_tx_descriptors :: "32 word \<Rightarrow> driver \<Rightarrow> driver option" where
  "reclaim_tx_descriptors R s =
     (if tx_head s \<noteq> tx_tail s then
        (if status (tx_ring_mem s (tx_head s)) AND DESC_STATUS_DD = 0 then Some s
         else reclaim_tx_descriptors R (s\<lparr>tx_head := (tx_head s + 1) AND (R - 1)\<rparr>))
      else Some s)"

text \<open>
  The body of \<open>send_packet\<close> below the fullness check: copy the payload into the buffer
  slot of the producer index, fill the descriptor, store 0 to its status word, advance
  the producer cursor, write the doorbell, count the packet. \<open>length\<close> is a
  \<open>uint16_t\<close>; the slot offset \<open>tx_tail_ * MAX_PACKET_SIZE\<close> is a 32-bit product.
\<close>

definition send_packet_body :: "driver \<Rightarrow> 32 word \<Rightarrow> addr \<Rightarrow> 16 word \<Rightarrow> driver" where
  "send_packet_body s next_tail data len =
     (let tx_buffer = tx_buffers s + ucast (tx_tail s * MAX_PACKET_SIZE);
          m' = (if 64 \<le> len then neon_memcpy (mem s) tx_buffer data (unat len)
                else memcpy (mem s) tx_buffer data (unat len));
          desc = (tx_ring_mem s (tx_tail s))
                   \<lparr>buffer_addr := get_physical_addr tx_buffer,
                    cmd_type_len := ucast len OR DESC_STATUS_EOP,
                    status := 0\<rparr>;
          s1 = s\<lparr>mem := m', tx_ring_mem := (tx_ring_mem s)(tx_tail s := desc)\<rparr>;
          s2 = s1\<lparr>tx_tail := next_tail\<rparr>;
          s3 = write_reg REG_TX_DESC_TAIL (tx_tail s2) s2
      in s3\<lparr>packets_sent := packets_sent s3 + 1\<rparr>)"

text \<open>
  \<open>send_packet\<close> returns \<open>false\<close> when the ring is full (the specification's
  \<open>RingFullError\<close>) and \<open>true\<close> after queueing the packet.
\<close>

definition send_packet :: "32 word \<Rightarrow> driver \<Rightarrow> addr \<Rightarrow> 16 word \<Rightarrow> (bool \<times> driver) option" where
  "send_packet R s data len =
     (let next_tail = (tx_tail s + 1) AND (R - 1) in
      if next_tail = tx_head s then
        (case reclaim_tx_descriptors R s of
           None \<Rightarrow> None
         | Some s1 \<Rightarrow>
             if next_tail = tx_head s1 then Some (False, s1)
             else Some (True, send_packet_body s1 next_tail data len))
      else Some (True, send_packet_body s next_tail data len))"

text \<open>
  \<open>receive_packet\<close> returns \<open>false\<close> (here \<open>None\<close>) when the descriptor at the head
  cursor has no DD flag, and otherwise \<open>true\<close> with the two out-parameters
  \<open>*packet_out\<close> and \<open>*len_out\<close> (here \<open>Some (packet, len)\<close>).
\<close>

definition receive_packet :: "32 word \<Rightarrow> driver \<Rightarrow> (addr \<times> 16 word) option \<times> driver" where
  "receive_packet R s =
     (let desc = rx_ring_mem s (rx_head s) in
      if rx_status desc AND DESC_STATUS_DD = 0 then (None, s)
      else
        (let packet_out = rx_buffers s + ucast (rx_head s * MAX_PACKET_SIZE);
             len_out = rx_length desc;
             s1 = s\<lparr>rx_ring_mem := (rx_ring_mem s)(rx_head s := desc\<lparr>rx_status := 0\<rparr>)\<rparr>;
             s2 = s1\<lparr>rx_head := (rx_head s1 + 1) AND (R - 1)\<rparr>;
             s3 = write_reg REG_RX_DESC_TAIL ((rx_head s2 - 1) AND (R - 1)) s2;
             s4 = s3\<lparr>packets_received := packets_received s3 + 1\<rparr>
         in (Some (packet_out, len_out), s4)))"

section \<open>Device lifecycle\<close>

text \<open>
  What the operating system, the allocator and the device answer during \<open>initialize\<close>:
  the result of \<open>open\<close>, of \<open>lseek(fd, 0, SEEK_END)\<close> and of \<open>mmap\<close>, the value
  returned by the \<open>i\<close>-th load of \<open>REG_CTRL\<close> in the reset loop, the results of the
  four calls of \<open>aligned_alloc\<close> (0 is the null pointer), and the values loaded from
  \<open>REG_RX_CTRL\<close> and \<open>REG_TX_CTRL\<close>.
\<close>

record environment =
  open_fd :: int
  lseek_end :: "64 word"
  mmap_result :: addr
  ctrl_reads :: "nat \<Rightarrow> 32 word"
  alloc_rx_ring :: addr
  alloc_tx_ring :: addr
  alloc_rx_buffers :: addr
  alloc_tx_buffers :: addr
  rx_ctrl_read :: "32 word"
  tx_ctrl_read :: "32 word"

text \<open>The constructor: every member zero; the memory the object lives in is given.\<close>

definition ARM64NICDriver ::
  "memory \<Rightarrow> (32 word \<Rightarrow> RxDescriptor) \<Rightarrow> (32 word \<Rightarrow> TxDescriptor) \<Rightarrow> driver" where
  "ARM64NICDriver m rxm txm =
     \<lparr>bar0_base = 0, bar0_size = 0, rx_ring = 0, tx_ring = 0, rx_buffers = 0,
      tx_buffers = 0, rx_head = 0, tx_head = 0, tx_tail = 0, packets_received = 0,
      packets_sent = 0, initialized = False, rx_ring_mem = rxm, tx_ring_mem = txm,
      mem = m, trace = []\<rparr>"

definition map_bar0 :: "environment \<Rightarrow> driver \<Rightarrow> bool \<times> driver" where
  "map_bar0 env s =
     (if open_fd env < 0 then (False, s)
      else
        (let s1 = s\<lparr>bar0_size := lseek_end env\<rparr>;
             s2 = s1\<lparr>bar0_base := mmap_result env\<rparr>;
             s3 = (if mmap_result env \<noteq> MAP_FAILED
                   then emit (Mmap (mmap_result env) (bar0_size s2)) s2 else s2)
         in (bar0_base s3 \<noteq> MAP_FAILED, s3)))"

text \<open>The polling loop of \<open>reset_device\<close>, from iteration \<open>i\<close> on.\<close>

function reset_wait :: "environment \<Rightarrow> nat \<Rightarrow> driver \<Rightarrow> bool \<times> driver" where
  "reset_wait env i s =
     (if i < 1000 then
        (let v = ctrl_reads env i;
             s1 = read_reg REG_CTRL v s
         in if v AND CTRL_RESET = 0 then (True, s1) else reset_wait env (Suc i) s1)
      else (False, s))"
  by pat_completeness auto
termination
  by (relation "measure (\<lambda>(env, i, s). 1000 - i)") auto

declare reset_wait.simps [simp del]

definition reset_device :: "environment \<Rightarrow> driver \<Rightarrow> bool \<times> driver" where
  "reset_device env s = reset_wait env 0 (write_reg REG_CTRL CTRL_RESET s)"

text \<open>\<open>aligned_alloc\<close> hands out the block the environment names; a null result
  allocates nothing.\<close>

definition aligned_alloc :: "addr \<Rightarrow> driver \<Rightarrow> driver" where
  "aligned_alloc p s = (if p = 0 then s else emit (Alloc p) s)"

text \<open>The loop of \<open>allocate_rings\<close> that points every RX descriptor at its buffer slot,
  from index \<open>i\<close> on.\<close>

function setup_rx_descriptors :: "32 word \<Rightarrow> 32 word \<Rightarrow> driver \<Rightarrow> driver" where
  "setup_rx_descriptors R i s =
     (if i < R then
        setup_rx_descriptors R (i + 1)
          (s\<lparr>rx_ring_mem := (rx_ring_mem s)
                (i := (rx_ring_mem s i)
                   \<lparr>rx_buffer_addr :=
                      get_physical_addr (rx_buffers s + ucast (i * MAX_PACKET_SIZE))\<rparr>)\<rparr>)
      else s)"
  by pat_completeness auto
termination
proof (relation "measure (\<lambda>(R, i, s). unat R - unat i)", goal_cases)
  case 1
  show ?case by simp
next
  case (2 R i s)
  then have "unat (i + 1) = Suc (unat i)" and "unat i < unat R"
    by unat_arith+
  then show ?case by simp
qed

declare setup_rx_descriptors.simps [simp del]

definition allocate_rings :: "32 word \<Rightarrow> 32 word \<Rightarrow> environment \<Rightarrow> driver \<Rightarrow> bool \<times> driver" where
  "allocate_rings RXN TXN env s =
     (let s1 = aligned_alloc (alloc_rx_ring env) (s\<lparr>rx_ring := alloc_rx_ring env\<rparr>) in
      if rx_ring s1 = 0 then (False, s1)
      else
        (let s2 = s1\<lparr>rx_ring_mem := (\<lambda>i. if i < RXN then zero_rx_desc else rx_ring_mem s1 i)\<rparr>;
             s3 = aligned_alloc (alloc_tx_ring env) (s2\<lparr>tx_ring := alloc_tx_ring env\<rparr>) in
         if tx_ring s3 = 0 then (False, s3)
         else
           (let s4 = s3\<lparr>tx_ring_mem := (\<lambda>i. if i < TXN then zero_tx_desc else tx_ring_mem s3 i)\<rparr>;
                s5 = aligned_alloc (alloc_rx_buffers env) (s4\<lparr>rx_buffers := alloc_rx_buffers env\<rparr>) in
            if rx_buffers s5 = 0 then (False, s5)
            else
              (let s6 = aligned_alloc (alloc_tx_buffers env)
                          (s5\<lparr>tx_buffers := alloc_tx_buffers env\<rparr>) in
               if tx_buffers s6 = 0 then (False, s6)
               else (True, setup_rx_descriptors RXN 0 s6)))))"

text \<open>
  \<open>initialize\<close> returns \<open>false\<close> at three places. The model keeps apart which one, under
  the names of the specification's error taxonomy; the C++ result is \<open>true\<close> exactly for
  \<open>InitOk\<close>.
\<close>

datatype init_result = InitOk | MapError | ResetTimeoutError | AllocationError

definition configure_rings :: "32 word \<Rightarrow> 32 word \<Rightarrow> driver \<Rightarrow> driver" where
  "configure_rings RXN TXN s =
     (let s1 = write_reg REG_RX_DESC_BASE_LO (ucast (get_physical_addr (rx_ring s) AND 0xFFFFFFFF)) s;
          s2 = write_reg REG_RX_DESC_BASE_HI (ucast (drop_bit 32 (get_physical_addr (rx_ring s1)))) s1;
          s3 = write_reg REG_RX_DESC_LEN (ucast ((ucast RXN :: 64 word) * ucast sizeof_RxDescriptor)) s2;
          s4 = write_reg REG_RX_DESC_HEAD 0 s3;
          s5 = write_reg REG_RX_DESC_TAIL (RXN - 1) s4;
          s6 = write_reg REG_TX_DESC_BASE_LO (ucast (get_physical_addr (tx_ring s5) AND 0xFFFFFFFF)) s5;
          s7 = write_reg REG_TX_DESC_BASE_HI (ucast (drop_bit 32 (get_physical_addr (tx_ring s6)))) s6;
          s8 = write_reg REG_TX_DESC_LEN (ucast ((ucast TXN :: 64 word) * ucast sizeof_TxDescriptor)) s7;
          s9 = write_reg REG_TX_DESC_HEAD 0 s8
      in write_reg REG_TX_DESC_TAIL 0 s9)"

definition enable_paths :: "environment \<Rightarrow> driver \<Rightarrow> driver" where
  "enable_paths env s =
     (let s1 = read_reg REG_RX_CTRL (rx_ctrl_read env) s;
          rx_ctrl = rx_ctrl_read env OR CTRL_RX_ENABLE;
          s2 = write_reg REG_RX_CTRL rx_ctrl s1;
          s3 = read_reg REG_TX_CTRL (tx_ctrl_read env) s2;
          tx_ctrl = tx_ctrl_read env OR CTRL_TX_ENABLE
      in write_reg REG_TX_CTRL tx_ctrl s3)"

definition initialize :: "32 word \<Rightarrow> 32 word \<Rightarrow> environment \<Rightarrow> driver \<Rightarrow> init_result \<times> driver" where
  "initialize RXN TXN env s =
     (case map_bar0 env s of
        (False, s1) \<Rightarrow> (MapError, s1)
      | (True, s1) \<Rightarrow>
          (case reset_device env s1 of
             (False, s2) \<Rightarrow> (ResetTimeoutError, s2)
           | (True, s2) \<Rightarrow>
               (case allocate_rings RXN TXN env s2 of
                  (False, s3) \<Rightarrow> (AllocationError, s3)
                | (True, s3) \<Rightarrow>
                    (let s4 = configure_rings RXN TXN s3;
                         s5 = enable_paths env s4
                     in (InitOk, s5\<lparr>initialized := True\<rparr>)))))"

text \<open>
  What the operating system holds for the process after the effects of a trace: the heap
  blocks handed out and not released since, and the base addresses of the regions mapped
  and not unmapped since. Releasing what is not held changes nothing here; whether the
  call that does so returns is said where the call is modelled.
\<close>

fun heap_after :: "addr list \<Rightarrow> effect list \<Rightarrow> addr list" where
  "heap_after h [] = h"
| "heap_after h (Alloc p # t) = heap_after (h @ [p]) t"
| "heap_after h (Free p # t) = heap_after (remove1 p h) t"
| "heap_after h (e # t) = heap_after h t"

fun windows_after :: "addr list \<Rightarrow> effect list \<Rightarrow> addr list" where
  "windows_after w [] = w"
| "windows_after w (Mmap p n # t) = windows_after (w @ [p]) t"
| "windows_after w (Munmap p n # t) = windows_after (remove1 p w) t"
| "windows_after w (e # t) = windows_after w t"

definition live_blocks :: "effect list \<Rightarrow> addr list" where
  "live_blocks tr = heap_after [] tr"

definition mapped_windows :: "effect list \<Rightarrow> addr list" where
  "mapped_windows tr = windows_after [] tr"

text \<open>
  \<open>cleanup\<close>, the body of the destructor. Two of its steps do not return on every
  state. A store through \<open>bar0_base_\<close> when no region is mapped at that address is an
  invalid memory access, which ends the process; \<open>free\<close> of a block that the heap does
  not hold is undefined, and the C library aborts. \<open>munmap\<close> of a region that is not
  mapped is not an error, and \<open>cleanup\<close> ignores its result. A step that does not return
  is the value \<open>Inl\<close> of the fault, and the steps after it do not run.
  \<open>write_reg_mapped\<close> is \<open>write_reg\<close> as \<open>cleanup\<close> calls it, on a state whose register
  window may be gone.
\<close>

datatype fault = SegmentationFault | InvalidFree

definition and_then :: "fault + 'a \<Rightarrow> ('a \<Rightarrow> fault + 'b) \<Rightarrow> fault + 'b" where
  "and_then r f = (case r of Inl e \<Rightarrow> Inl e | Inr x \<Rightarrow> f x)"

definition write_reg_mapped :: "32 word \<Rightarrow> 32 word \<Rightarrow> driver \<Rightarrow> fault + driver" where
  "write_reg_mapped offset v s =
     (if bar0_base s \<in> set (mapped_windows (trace s)) then Inr (write_reg offset v s)
      else Inl SegmentationFault)"

definition munmap :: "addr \<Rightarrow> 64 word \<Rightarrow> driver \<Rightarrow> driver" where
  "munmap p n s = emit (Munmap p n) s"

definition free :: "addr \<Rightarrow> driver \<Rightarrow> fault + driver" where
  "free p s =
     (if p \<in> set (live_blocks (trace s)) then Inr (emit (Free p) s) else Inl InvalidFree)"

definition cleanup :: "driver \<Rightarrow> fault + driver" where
  "cleanup s =
     and_then
       (if initialized s
        then and_then (write_reg_mapped REG_RX_CTRL 0 s) (write_reg_mapped REG_TX_CTRL 0)
        else Inr s)
       (\<lambda>s1.
          let s2 = (if bar0_base s1 \<noteq> 0 \<and> bar0_base s1 \<noteq> MAP_FAILED
                    then munmap (bar0_base s1) (bar0_size s1) s1 else s1)
          in and_then (if rx_ring s2 \<noteq> 0 then free (rx_ring s2) s2 else Inr s2)
               (\<lambda>s3. and_then (if tx_ring s3 \<noteq> 0 then free (tx_ring s3) s3 else Inr s3)
                  (\<lambda>s4. and_then
                     (if rx_buffers s4 \<noteq> 0 then free (rx_buffers s4) s4 else Inr s4)
                     (\<lambda>s5. if tx_buffers s5 \<noteq> 0 then free (tx_buffers s5) s5
                            else Inr s5))))"

text \<open>
  The device side of the test scenarios: hardware reports the TX descriptor at index
  \<open>i\<close> as done by setting its DD flag.
\<close>

definition hw_complete_tx :: "32 word \<Rightarrow> driver \<Rightarrow> driver" where
  "hw_complete_tx i s =
     s\<lparr>tx_ring_mem := (tx_ring_mem s)
          (i := (tx_ring_mem s i)\<lparr>status := status (tx_ring_mem s i) OR DESC_STATUS_DD\<rparr>)\<rparr>"

text \<open>A caller issuing sends one after the other, keeping each result.\<close>

fun send_all :: "32 word \<Rightarrow> driver \<Rightarrow> (addr \<times> 16 word) list \<Rightarrow> (bool list \<times> driver) option" where
  "send_all R s [] = Some ([], s)"
| "send_all R s ((data, len) # ps) =
     (case send_packet R s data len of
        None \<Rightarrow> None
      | Some (ok, s1) \<Rightarrow>
          (case send_all R s1 ps of
             None \<Rightarrow> None
           | Some (oks, s2) \<Rightarrow> Some (ok # oks, s2)))"

section \<open>Observations on traces\<close>

text \<open>The values returned, in order, by the loads of register \<open>r\<close> that a trace records.\<close>

fun reads_of :: "32 word \<Rightarrow> effect list \<Rightarrow> 32 word list" where
  "reads_of r [] = []"
| "reads_of r (RegRead r' v # t) = (if r' = r then v # reads_of r t else reads_of r t)"
| "reads_of r (e # t) = reads_of r t"

text \<open>The values stored, in order, to register \<open>r\<close>.\<close>

fun writes_of :: "32 word \<Rightarrow> effect list \<Rightarrow> 32 word list" where
  "writes_of r [] = []"
| "writes_of r (RegWrite r' v # t) = (if r' = r then v # writes_of r t else writes_of r t)"
| "writes_of r (e # t) = writes_of r t"

text \<open>The heap blocks allocated and released and the regions mapped and unmapped, in
  the order in which a trace records them.\<close>

fun allocs_of :: "effect list \<Rightarrow> addr list" where
  "allocs_of [] = []"
| "allocs_of (Alloc p # t) = p # allocs_of t"
| "allocs_of (e # t) = allocs_of t"

fun frees_of :: "effect list \<Rightarrow> addr list" where
  "frees_of [] = []"
| "frees_of (Free p # t) = p # frees_of t"
| "frees_of (e # t) = frees_of t"

fun mmaps_of :: "effect list \<Rightarrow> (addr \<times> 64 word) list" where
  "mmaps_of [] = []"
| "mmaps_of (Mmap p n # t) = (p, n) # mmaps_of t"
| "mmaps_of (e # t) = mmaps_of t"

fun munmaps_of :: "effect list \<Rightarrow> (addr \<times> 64 word) list" where
  "munmaps_of [] = []"
| "munmaps_of (Munmap p n # t) = (p, n) # munmaps_of t"
| "munmaps_of (e # t) = munmaps_of t"

text \<open>
  A driver state accounts for its resources when the blocks allocated so far are its
  non-null ring and buffer pointers, the region mapped so far is its register window if
  it has one, and nothing has been released yet.
\<close>

definition owns_resources :: "driver \<Rightarrow> bool" where
  "owns_resources s \<longleftrightarrow>
     allocs_of (trace s) =
       filter (\<lambda>p. p \<noteq> 0) [rx_ring s, tx_ring s, rx_buffers s, tx_buffers s] \<and>
     mmaps_of (trace s) =
       (if bar0_base s \<noteq> 0 \<and> bar0_base s \<noteq> MAP_FAILED
        then [(bar0_base s, bar0_size s)] else []) \<and>
     frees_of (trace s) = [] \<and> munmaps_of (trace s) = []"

text \<open>The 64-bit address that the device reads from a pair of base-address registers.\<close>

definition base_address :: "32 word \<Rightarrow> 32 word \<Rightarrow> 64 word" where
  "base_address lo hi = push_bit 32 (ucast hi) OR ucast lo"

text \<open>The calls into caller-supplied code that a trace records, in order.\<close>

fun handler_calls :: "effect list \<Rightarrow> (addr \<times> 16 word) list" where
  "handler_calls [] = []"
| "handler_calls (HandlerCall p l # t) = (p, l) # handler_calls t"
| "handler_calls (e # t) = handler_calls t"

text \<open>A device whose reset bit stays set for ever, behind a register window that maps.\<close>

definition env_stuck :: environment where
  "env_stuck =
     \<lparr>open_fd = 3, lseek_end = 0x10000, mmap_result = 0x7F0000000000,
      ctrl_reads = (\<lambda>_. CTRL_RESET),
      alloc_rx_ring = 0x10000, alloc_tx_ring = 0x20000,
      alloc_rx_buffers = 0x100000, alloc_tx_buffers = 0x200000,
      rx_ctrl_read = 0, tx_ctrl_read = 0\<rparr>"

section \<open>Ring arithmetic\<close>

text \<open>The masked increment \<open>(i + 1) & (N - 1)\<close> that the source writes out at each
  cursor update.\<close>

definition ring_next :: "32 word \<Rightarrow> 32 word \<Rightarrow> 32 word" where
  "ring_next R i = (i + 1) AND (R - 1)"

text \<open>The number of descriptors between the consumer cursor \<open>h\<close> and the producer
  cursor \<open>t\<close> of a ring of \<open>2 ^ k\<close> slots.\<close>

definition ring_dist :: "nat \<Rightarrow> 32 word \<Rightarrow> 32 word \<Rightarrow> nat" where
  "ring_dist k h t = (if unat h \<le> unat t then unat t - unat h else unat t + 2 ^ k - unat h)"

section \<open>Concrete environments and states\<close>

text \<open>A device that leaves reset at the first poll, with every system call and
  allocation succeeding; and a newly constructed driver object in zeroed memory.\<close>

definition env_ok :: environment where
  "env_ok =
     \<lparr>open_fd = 3, lseek_end = 0x10000, mmap_result = 0x7F0000000000,
      ctrl_reads = (\<lambda>_. 0),
      alloc_rx_ring = 0x10000, alloc_tx_ring = 0x20000,
      alloc_rx_buffers = 0x100000, alloc_tx_buffers = 0x200000,
      rx_ctrl_read = 0, tx_ctrl_read = 0\<rparr>"

text \<open>The same environment, except that the third allocation fails.\<close>

definition env_partial :: environment where
  "env_partial = env_ok\<lparr>alloc_rx_buffers := 0\<rparr>"

text \<open>The environment of a second attempt at \<open>initialize\<close>: every call succeeds, and
  the register window is mapped at another address than the first time.\<close>

definition env_retry :: environment where
  "env_retry = env_ok\<lparr>mmap_result := 0x7F0000100000\<rparr>"

definition new_driver :: driver where
  "new_driver = ARM64NICDriver (\<lambda>_. 0) (\<lambda>_. zero_rx_desc) (\<lambda>_. zero_tx_desc)"

text \<open>A driver whose memory holds at each address the low byte of that address, with
  the TX buffer pool at \<open>0x200000\<close> and both TX cursors at slot 0.\<close>

definition demo_state :: driver where
  "demo_state =
     (ARM64NICDriver (\<lambda>a. ucast a) (\<lambda>_. zero_rx_desc) (\<lambda>_. zero_tx_desc))
       \<lparr>tx_buffers := 0x200000\<rparr>"

text \<open>A driver with the RX buffer pool at \<open>0x100000\<close> in which hardware has completed
  RX descriptor 0 with a frame of 60 bytes.\<close>

definition rx_ready :: driver where
  "rx_ready =
     new_driver
       \<lparr>rx_buffers := 0x100000,
        rx_ring_mem := (\<lambda>_. zero_rx_desc)
          (0 := zero_rx_desc\<lparr>rx_length := 60, rx_status := DESC_STATUS_DD\<rparr>)\<rparr>"

text \<open>An eight-slot ring with seven descriptors outstanding and none completed.\<close>

definition ring8_full :: driver where
  "ring8_full = new_driver\<lparr>tx_tail := 7\<rparr>"

section \<open>Reference behaviour of a copy\<close>

text \<open>
  The memory in which the \<open>n\<close> bytes found at \<open>s\<close> have been placed at \<open>d\<close> all at once:
  the address \<open>a\<close> lies in the destination range when its offset \<open>a - d\<close> is below
  \<open>n\<close>, and then holds the byte that was at the same offset from \<open>s\<close>.
\<close>

definition copied :: "memory \<Rightarrow> addr \<Rightarrow> addr \<Rightarrow> nat \<Rightarrow> memory" where
  "copied m d s n = (\<lambda>a. if unat (a - d) < n then m (s + (a - d)) else m a)"

text \<open>
  A forward copy does not clobber its source when no destination byte is the place of
  a source byte with a higher index. Ranges that do not overlap satisfy this, and so does
  a destination that starts at or below the source.
\<close>

definition no_clobber :: "addr \<Rightarrow> addr \<Rightarrow> nat \<Rightarrow> bool" where
  "no_clobber d s n = (\<forall>j\<in>{..<n}. \<forall>i\<in>{..<j}. d + of_nat i \<noteq> s + of_nat j)"

text \<open>The address of the buffer slot that \<open>send_packet\<close> fills.\<close>

definition tx_slot :: "driver \<Rightarrow> addr" where
  "tx_slot s = tx_buffers s + ucast (tx_tail s * MAX_PACKET_SIZE)"

section \<open>The two copy routines against the reference copy\<close>

lemma no_clobber_iff:
  "no_clobber d s n \<longleftrightarrow> (\<forall>i j. i < j \<and> j < n \<longrightarrow> d + of_nat i \<noteq> s + of_nat j)"
  by (auto simp: no_clobber_def)

lemma unat_pred: "(x :: 64 word) \<noteq> 0 \<Longrightarrow> unat (x - 1) = unat x - 1"
  by (simp add: unat_minus_one)

lemma unat_minus_one_64: "unat (- 1 :: 64 word) = 2 ^ 64 - 1"
  by (simp add: unsigned_minus_1_eq_mask mask_eq_exp_minus_1)

lemma no_clobber_Suc:
  "no_clobber d s (Suc n) \<Longrightarrow> no_clobber (d + 1) (s + 1) n"
  unfolding no_clobber_iff
proof (intro allI impI)
  fix i j assume h: "\<forall>i j. i < j \<and> j < Suc n \<longrightarrow> d + of_nat i \<noteq> s + of_nat j" and ij: "i < j \<and> j < n"
  then have "d + of_nat (Suc i) \<noteq> s + of_nat (Suc j)" by (intro h [rule_format]) simp
  then show "d + 1 + of_nat i \<noteq> s + 1 + of_nat j" by (simp add: add.assoc add.commute)
qed

lemma copy_bytes_copied:
  "n \<le> 2 ^ 64 \<Longrightarrow> no_clobber d s n \<Longrightarrow> copy_bytes m d s n = copied m d s n"
proof (induction n arbitrary: m d s)
  case 0
  show ?case by (simp add: copied_def)
next
  case (Suc n)
  have IH: "copy_bytes (m(d := m s)) (d + 1) (s + 1) n = copied (m(d := m s)) (d + 1) (s + 1) n"
    using Suc.prems by (intro Suc.IH no_clobber_Suc) simp_all
  have "copied (m(d := m s)) (d + 1) (s + 1) n a = copied m d s (Suc n) a" for a
  proof (cases "a = d")
    case True
    have "unat (- 1 :: 64 word) \<ge> n" using Suc.prems(1) by (simp add: unat_minus_one_64)
    then show ?thesis using True by (simp add: copied_def)
  next
    case False
    define x where "x = a - d"
    have x0: "x \<noteq> 0" using False by (simp add: x_def)
    have a: "a - (d + 1) = x - 1" by (simp add: x_def)
    have ux: "unat (x - 1) = unat x - 1" "0 < unat x"
      using x0 by (simp_all add: unat_minus_one unat_gt_0)
    show ?thesis
    proof (cases "unat x < Suc n")
      case True
      have "d + of_nat 0 \<noteq> s + of_nat (unat x)"
        using Suc.prems(2) True ux(2) unfolding no_clobber_iff by blast
      then have "s + x \<noteq> d" by auto
      moreover have "unat (x - 1) < n" using True ux by arith
      ultimately show ?thesis using True False
        by (simp add: copied_def a x_def [symmetric])
    next
      case out: False
      then have "\<not> unat (x - 1) < n" using ux by arith
      then show ?thesis using out False
        by (simp add: copied_def a x_def [symmetric])
    qed
  qed
  then show ?case using IH by (simp add: fun_eq_iff)
qed

lemma store_bytes_eq:
  "length bs \<le> 2 ^ 64 \<Longrightarrow>
   store_bytes m p bs = (\<lambda>a. if unat (a - p) < length bs then bs ! unat (a - p) else m a)"
proof (induction bs arbitrary: m p)
  case Nil
  show ?case by simp
next
  case (Cons b bs)
  have IH: "store_bytes (m(p := b)) (p + 1) bs =
      (\<lambda>a. if unat (a - (p + 1)) < length bs then bs ! unat (a - (p + 1)) else (m(p := b)) a)"
    using Cons.prems by (intro Cons.IH) simp
  have "(if unat (a - (p + 1)) < length bs then bs ! unat (a - (p + 1)) else (m(p := b)) a) =
        (if unat (a - p) < length (b # bs) then (b # bs) ! unat (a - p) else m a)" for a
  proof (cases "a = p")
    case True
    have "unat (- 1 :: 64 word) \<ge> length bs" using Cons.prems by (simp add: unat_minus_one_64)
    then show ?thesis using True by simp
  next
    case False
    define x where "x = a - p"
    have x0: "x \<noteq> 0" using False by (simp add: x_def)
    have a: "a - (p + 1) = x - 1" by (simp add: x_def)
    have ux: "unat (x - 1) = unat x - 1" "0 < unat x"
      using x0 by (simp_all add: unat_minus_one unat_gt_0)
    show ?thesis
    proof (cases "unat x < Suc (length bs)")
      case True
      moreover have "unat (x - 1) < length bs" using True ux by arith
      ultimately show ?thesis using False ux
        by (simp add: a x_def [symmetric] nth_Cons')
    next
      case out: False
      then have "\<not> unat (x - 1) < length bs" using ux by arith
      then show ?thesis using out False
        by (simp add: a x_def [symmetric])
    qed
  qed
  then show ?case using IH by (simp add: fun_eq_iff)
qed

lemma store_bytes_append:
  "store_bytes (store_bytes m p xs) (p + of_nat (length xs)) ys = store_bytes m p (xs @ ys)"
proof (induction xs arbitrary: m p)
  case Nil
  show ?case by simp
next
  case (Cons x xs)
  have e: "p + of_nat (length (x # xs)) = (p + 1) + of_nat (length xs)" by simp
  show ?case
    by (simp only: store_bytes.simps append_Cons e) (rule Cons.IH)
qed

lemma length_vld1q_u8 [simp]: "length (vld1q_u8 m p) = 16"
  by (simp add: vld1q_u8_def)

lemma vld1q_u8_shift:
  "vld1q_u8 m (s + of_nat c) = map (\<lambda>i. m (s + of_nat i)) [c..<c + 16]"
proof -
  have "[c..<c + 16] = map (\<lambda>i. i + c) [0..<16]"
    by (simp add: map_add_upt add.commute)
  then show ?thesis
    by (simp add: vld1q_u8_def o_def ac_simps)
qed

lemma loads_concat:
  "vld1q_u8 m s @ vld1q_u8 m (s + 16) @ vld1q_u8 m (s + 32) @ vld1q_u8 m (s + 48) =
   map (\<lambda>i. m (s + of_nat i)) [0..<64]"
proof -
  have "[0..<64::nat] = [0..<16] @ [16..<32] @ [32..<48] @ [48..<64]"
    using upt_add_eq_append [of 0 16 48] upt_add_eq_append [of 16 32 32]
      upt_add_eq_append [of 32 48 16]
    by (simp del: upt_rec_numeral)
  moreover have "vld1q_u8 m s = map (\<lambda>i. m (s + of_nat i)) [0..<16]"
    using vld1q_u8_shift [of m s 0] by (simp del: upt_rec_numeral)
  moreover have "vld1q_u8 m (s + 16) = map (\<lambda>i. m (s + of_nat i)) [16..<32]"
    using vld1q_u8_shift [of m s 16] by (simp del: upt_rec_numeral)
  moreover have "vld1q_u8 m (s + 32) = map (\<lambda>i. m (s + of_nat i)) [32..<48]"
    using vld1q_u8_shift [of m s 32] by (simp del: upt_rec_numeral)
  moreover have "vld1q_u8 m (s + 48) = map (\<lambda>i. m (s + of_nat i)) [48..<64]"
    using vld1q_u8_shift [of m s 48] by (simp del: upt_rec_numeral)
  ultimately show ?thesis by (simp only: map_append)
qed

lemma neon_block_store:
  "neon_block m d s = store_bytes m d (map (\<lambda>i. m (s + of_nat i)) [0..<64])"
proof -
  let ?v0 = "vld1q_u8 m s" and ?v1 = "vld1q_u8 m (s + 16)"
    and ?v2 = "vld1q_u8 m (s + 32)" and ?v3 = "vld1q_u8 m (s + 48)"
  have "neon_block m d s =
      store_bytes (store_bytes (store_bytes (store_bytes m d ?v0) (d + 16) ?v1) (d + 32) ?v2)
        (d + 48) ?v3"
    by (simp add: neon_block_def Let_def vst1q_u8_def)
  also have "store_bytes (store_bytes m d ?v0) (d + 16) ?v1 = store_bytes m d (?v0 @ ?v1)"
    using store_bytes_append [of m d ?v0 ?v1] by simp
  also have "store_bytes (store_bytes m d (?v0 @ ?v1)) (d + 32) ?v2 =
      store_bytes m d ((?v0 @ ?v1) @ ?v2)"
    using store_bytes_append [of m d "?v0 @ ?v1" ?v2] by simp
  also have "store_bytes (store_bytes m d ((?v0 @ ?v1) @ ?v2)) (d + 48) ?v3 =
      store_bytes m d (((?v0 @ ?v1) @ ?v2) @ ?v3)"
    using store_bytes_append [of m d "(?v0 @ ?v1) @ ?v2" ?v3] by simp
  finally show ?thesis by (simp only: append_assoc loads_concat)
qed

lemma neon_block_copied: "neon_block m d s = copied m d s 64"
proof -
  have "store_bytes m d (map (\<lambda>i. m (s + of_nat i)) [0..<64]) a = copied m d s 64 a" for a
    by (subst store_bytes_eq) (simp_all add: copied_def)
  then show ?thesis by (simp add: neon_block_store fun_eq_iff)
qed

lemma no_clobber_block:
  assumes "no_clobber d s n" "64 \<le> n"
  shows "no_clobber (d + 64) (s + 64) (n - 64)"
  unfolding no_clobber_iff
proof (intro allI impI)
  fix i j assume ij: "i < j \<and> j < n - 64"
  then have "i + 64 < j + 64 \<and> j + 64 < n" using assms(2) by arith
  then have "d + of_nat (i + 64) \<noteq> s + of_nat (j + 64)"
    using assms(1) unfolding no_clobber_iff by blast
  then show "d + 64 + of_nat i \<noteq> s + 64 + of_nat j" by (simp add: ac_simps)
qed

lemma unat_sub_64:
  "unat ((x :: 64 word) - 64) = (if 64 \<le> unat x then unat x - 64 else unat x + 2 ^ 64 - 64)"
  using unat_sub_if' [of x 64] by simp

lemma neon_memcpy_copied:
  "n \<le> 2 ^ 64 \<Longrightarrow> no_clobber d s n \<Longrightarrow> neon_memcpy m d s n = copied m d s n"
proof (induction m d s n rule: neon_memcpy.induct)
  case (1 m d s n)
  show ?case
  proof (cases "64 \<le> n")
    case False
    then have "neon_memcpy m d s n = copy_bytes m d s n"
      by (subst neon_memcpy.simps) simp
    then show ?thesis using "1.prems" by (simp add: copy_bytes_copied)
  next
    case True
    have step: "neon_memcpy m d s n = neon_memcpy (neon_block m d s) (d + 64) (s + 64) (n - 64)"
      using True by (subst neon_memcpy.simps) simp
    have IH: "neon_memcpy (neon_block m d s) (d + 64) (s + 64) (n - 64) =
        copied (neon_block m d s) (d + 64) (s + 64) (n - 64)"
      using "1.prems" True by (intro "1.IH" no_clobber_block) simp_all
    have "copied (copied m d s 64) (d + 64) (s + 64) (n - 64) a = copied m d s n a" for a
    proof -
      define x where "x = a - d"
      have a: "a - (d + 64) = x - 64" by (simp add: x_def)
      have sx: "s + 64 + (x - 64) = s + x" by simp
      show ?thesis
      proof (cases "unat x < 64")
        case True
        then have "\<not> unat (x - 64) < n - 64"
          using "1.prems"(1) by (simp add: unat_sub_64)
        then show ?thesis using True \<open>64 \<le> n\<close>
          by (simp add: copied_def a x_def [symmetric])
      next
        case far: False
        then have u: "unat (x - 64) = unat x - 64" by (simp add: unat_sub_64)
        show ?thesis
        proof (cases "unat x < n")
          case True
          have "\<not> unat (s + x - d) < 64"
          proof
            assume lt: "unat (s + x - d) < 64"
            from "1.prems"(2) have nc: "i < j \<Longrightarrow> j < n \<Longrightarrow> d + of_nat i \<noteq> s + of_nat j" for i j
              unfolding no_clobber_iff by blast
            have "unat (s + x - d) < unat x" using lt far by arith
            from nc [OF this True] show False by simp
          qed
          moreover have "unat (x - 64) < n - 64" using u far True by arith
          ultimately show ?thesis using True far
            by (simp add: copied_def a sx x_def [symmetric])
        next
          case False
          then have "\<not> unat (x - 64) < n - 64" using u far by arith
          then show ?thesis using False far
            by (simp add: copied_def a x_def [symmetric])
        qed
      qed
    qed
    then show ?thesis using step IH by (simp add: neon_block_copied fun_eq_iff)
  qed
qed

lemma in_range_offset:
  assumes "(a :: 64 word) = d + of_nat i" "i < n"
  shows "unat (a - d) < n"
proof -
  have "unat (a - d) = i mod 2 ^ 64" using assms(1) by (simp add: unat_of_nat)
  also have "\<dots> \<le> i" by simp
  finally show ?thesis using assms(2) by simp
qed

lemma copy_bytes_outside:
  "\<not> unat (a - d) < n \<Longrightarrow> copy_bytes m d s n a = m a"
proof (induction n arbitrary: m d s)
  case 0
  show ?case by simp
next
  case (Suc n)
  have ad: "a \<noteq> d" using Suc.prems by auto
  have "\<not> unat (a - (d + 1)) < n"
  proof
    assume lt: "unat (a - (d + 1)) < n"
    have "a = d + of_nat (Suc (unat (a - (d + 1))))" by simp
    moreover have "Suc (unat (a - (d + 1))) < Suc n" using lt by simp
    ultimately have "unat (a - d) < Suc n" by (rule in_range_offset)
    then show False using Suc.prems by simp
  qed
  then have "copy_bytes (m(d := m s)) (d + 1) (s + 1) n a = (m(d := m s)) a"
    by (rule Suc.IH)
  then show ?case using ad by simp
qed

lemma neon_memcpy_outside:
  "\<not> unat (a - d) < n \<Longrightarrow> neon_memcpy m d s n a = m a"
proof (induction m d s n rule: neon_memcpy.induct)
  case (1 m d s n)
  show ?case
  proof (cases "64 \<le> n")
    case False
    then have "neon_memcpy m d s n = copy_bytes m d s n"
      by (subst neon_memcpy.simps) simp
    then show ?thesis using "1.prems" by (simp add: copy_bytes_outside)
  next
    case True
    have step: "neon_memcpy m d s n = neon_memcpy (neon_block m d s) (d + 64) (s + 64) (n - 64)"
      using True by (subst neon_memcpy.simps) simp
    have "\<not> unat (a - (d + 64)) < n - 64"
    proof
      assume lt: "unat (a - (d + 64)) < n - 64"
      have "a = d + of_nat (64 + unat (a - (d + 64)))" by simp
      moreover have "64 + unat (a - (d + 64)) < n" using lt True by arith
      ultimately have "unat (a - d) < n" by (rule in_range_offset)
      then show False using "1.prems" by simp
    qed
    then have "neon_memcpy (neon_block m d s) (d + 64) (s + 64) (n - 64) a = neon_block m d s a"
      using True by (intro "1.IH")
    moreover have "\<not> unat (a - d) < 64" using "1.prems" True by simp
    ultimately show ?thesis using step by (simp add: neon_block_copied copied_def)
  qed
qed

lemma unat_add_of_nat:
  "unat (d :: 64 word) + i < 2 ^ 64 \<Longrightarrow> unat (d + of_nat i) = unat d + i"
proof -
  assume lt: "unat d + i < 2 ^ 64"
  then have "i < 2 ^ 64" by simp
  then have "unat (of_nat i :: 64 word) = i" by (simp add: unat_of_nat)
  then show ?thesis using lt by (simp add: unat_word_ariths)
qed

lemma no_clobber_disjoint:
  assumes "unat s + n \<le> unat d \<or> unat d + n \<le> unat s"
    and "unat d + n \<le> 2 ^ 64" and "unat s + n \<le> 2 ^ 64"
  shows "no_clobber d s n"
  unfolding no_clobber_iff
proof (intro allI impI notI)
  fix i j assume ij: "i < j \<and> j < n" and eq: "d + of_nat i = s + of_nat j"
  have "unat (d + of_nat i) = unat d + i"
    using ij assms(2) by (intro unat_add_of_nat) simp
  moreover have "unat (s + of_nat j) = unat s + j"
    using ij assms(3) by (intro unat_add_of_nat) simp
  ultimately have "unat d + i = unat s + j" using eq by simp
  then show False using assms(1) ij by arith
qed

lemma copy_bytes_step:
  "0 < n \<Longrightarrow> copy_bytes m d s n = copy_bytes (m(d := m s)) (d + 1) (s + 1) (n - 1)"
  by (cases n) simp_all

lemma neon_differs_on_overlap:
  "neon_memcpy (\<lambda>a. ucast a) 1 0 64 2 = 1" "copy_bytes (\<lambda>a. ucast a) 1 0 64 2 = 0"
proof -
  let ?m = "(\<lambda>a. ucast a) :: memory"
  have "neon_memcpy ?m 1 0 64 = copy_bytes (neon_block ?m 1 0) (1 + 64) (0 + 64) 0"
    by (subst neon_memcpy.simps, simp, subst neon_memcpy.simps, simp)
  then show "neon_memcpy ?m 1 0 64 2 = 1"
    by (simp add: neon_block_copied copied_def)
  have "copy_bytes ?m 1 0 64
      = copy_bytes ((?m(1 := ?m 0))(2 := (?m(1 := ?m 0)) 1)) 3 2 62"
    by (subst copy_bytes_step, simp, subst copy_bytes_step, simp, simp del: fun_upd_apply)
  moreover have "copy_bytes ((?m(1 := ?m 0))(2 := (?m(1 := ?m 0)) 1)) 3 2 62 2
      = ((?m(1 := ?m 0))(2 := (?m(1 := ?m 0)) 1)) 2"
    by (rule copy_bytes_outside) (simp add: unat_minus_one_64)
  ultimately show "copy_bytes ?m 1 0 64 2 = 0" by simp
qed

section \<open>Cursor arithmetic on a ring of a power-of-two size\<close>

lemma ring_sizes_of_the_source: "TX_RING_SIZE = 2 ^ 11" "RX_RING_SIZE = 2 ^ 11"
  by (simp_all add: TX_RING_SIZE_def RX_RING_SIZE_def)

lemma unat_ring_size: "k < 32 \<Longrightarrow> unat (2 ^ k :: 32 word) = 2 ^ k"
proof -
  assume k: "k < 32"
  have "(2 ^ k :: 32 word) = of_nat (2 ^ k)" by simp
  then have "unat (2 ^ k :: 32 word) = 2 ^ k mod 2 ^ 32"
    by (simp only: unat_of_nat) simp
  moreover have "(2::nat) ^ k < 2 ^ 32" using k by (rule power_strict_increasing) simp
  ultimately show ?thesis by simp
qed

lemma unat_and_ring_mask:
  "unat ((w :: 32 word) AND (2 ^ k - 1)) = unat w mod 2 ^ k"
proof -
  have "w AND (2 ^ k - 1) = take_bit k w"
    by (simp add: take_bit_eq_mask mask_eq_decr_exp)
  then have "unat (w AND (2 ^ k - 1)) = take_bit k (unat w)"
    by (simp only: unsigned_take_bit_eq)
  then show ?thesis by (simp add: take_bit_eq_mod)
qed

lemma unat_ring_next:
  assumes "k < 32"
  shows "unat (((h :: 32 word) + 1) AND (2 ^ k - 1)) = (unat h + 1) mod 2 ^ k"
proof -
  have "(2::nat) ^ k dvd 2 ^ 32" using assms by (meson le_imp_power_dvd nat_less_le)
  then have "(unat h + 1) mod 2 ^ 32 mod 2 ^ k = (unat h + 1) mod 2 ^ k"
    by (rule mod_mod_cancel)
  moreover have "unat (h + 1) = (unat h + 1) mod 2 ^ 32"
    by (simp add: unat_word_ariths)
  ultimately show ?thesis
    by (simp only: unat_and_ring_mask)
qed

lemma ring_lt_iff: "k < 32 \<Longrightarrow> ((h :: 32 word) < 2 ^ k) = (unat h < 2 ^ k)"
  by (simp only: word_less_nat_alt unat_ring_size)

lemma unat_ring_next': "k < 32 \<Longrightarrow> unat (ring_next (2 ^ k) h) = (unat h + 1) mod 2 ^ k"
  by (simp add: ring_next_def unat_ring_next)

lemma ring_next_lt: "k < 32 \<Longrightarrow> unat (ring_next (2 ^ k) h) < 2 ^ k"
  by (simp add: unat_ring_next')

lemma ring_dist_step:
  assumes "k < 32" "unat h < 2 ^ k" "unat t < 2 ^ k" "h \<noteq> t"
  shows "ring_dist k (ring_next (2 ^ k) h) t = ring_dist k h t - 1"
    and "0 < ring_dist k h t"
proof -
  have ne: "unat h \<noteq> unat t" using assms(4) by (simp add: word_unat_eq_iff)
  show "0 < ring_dist k h t"
    using ne assms(2,3) by (simp add: ring_dist_def)
  show "ring_dist k (ring_next (2 ^ k) h) t = ring_dist k h t - 1"
  proof (cases "unat h + 1 = 2 ^ k")
    case True
    then have "unat (ring_next (2 ^ k) h) = 0"
      using assms(1) by (simp add: unat_ring_next')
    then show ?thesis using True ne assms(2,3) by (simp add: ring_dist_def)
  next
    case False
    then have "unat (ring_next (2 ^ k) h) = unat h + 1"
      using assms(1,2) by (simp add: unat_ring_next')
    then show ?thesis using ne assms(2,3) by (simp add: ring_dist_def)
  qed
qed

lemma unat_ring_next_funpow:
  assumes "k < 32" "unat h < 2 ^ k"
  shows "unat ((ring_next (2 ^ k) ^^ n) h) = (unat h + n) mod 2 ^ k"
proof (induction n)
  case 0
  then show ?case using assms(2) by simp
next
  case (Suc n)
  then show ?case using assms(1) by (simp add: unat_ring_next' mod_Suc_eq)
qed

lemma reclaim_run:
  assumes k: "k < 32"
  shows "unat (tx_head s) < 2 ^ k \<Longrightarrow> unat (tx_tail s) < 2 ^ k \<Longrightarrow>
    ring_dist k (tx_head s) (tx_tail s) = d \<Longrightarrow>
    \<exists>n\<le>d. reclaim_tx_descriptors (2 ^ k) s =
             Some (s\<lparr>tx_head := (ring_next (2 ^ k) ^^ n) (tx_head s)\<rparr>) \<and>
      (\<forall>i<n. (ring_next (2 ^ k) ^^ i) (tx_head s) \<noteq> tx_tail s \<and>
         status (tx_ring_mem s ((ring_next (2 ^ k) ^^ i) (tx_head s))) AND DESC_STATUS_DD \<noteq> 0) \<and>
      ((ring_next (2 ^ k) ^^ n) (tx_head s) = tx_tail s \<or>
       status (tx_ring_mem s ((ring_next (2 ^ k) ^^ n) (tx_head s))) AND DESC_STATUS_DD = 0)"
proof (induction d arbitrary: s)
  case 0
  then have "unat (tx_head s) = unat (tx_tail s)"
    by (simp add: ring_dist_def split: if_splits)
  then have eq: "tx_head s = tx_tail s" by (simp add: word_unat_eq_iff)
  then have "reclaim_tx_descriptors (2 ^ k) s = Some s"
    by (subst reclaim_tx_descriptors.simps) simp
  then show ?case using eq by (intro exI [of _ 0]) simp
next
  case (Suc d)
  let ?h = "tx_head s"
  show ?case
  proof (cases "?h \<noteq> tx_tail s \<and> status (tx_ring_mem s ?h) AND DESC_STATUS_DD \<noteq> 0")
    case False
    then have "reclaim_tx_descriptors (2 ^ k) s = Some s"
      by (subst reclaim_tx_descriptors.simps) auto
    then show ?thesis using False by (intro exI [of _ 0]) auto
  next
    case True
    let ?s1 = "s\<lparr>tx_head := ring_next (2 ^ k) ?h\<rparr>"
    have step: "reclaim_tx_descriptors (2 ^ k) s = reclaim_tx_descriptors (2 ^ k) ?s1"
      using True by (subst reclaim_tx_descriptors.simps) (simp add: ring_next_def)
    have d1: "ring_dist k (tx_head ?s1) (tx_tail ?s1) = d"
      using ring_dist_step(1) [OF k Suc.prems(1,2)] True Suc.prems(3) by simp
    have h1: "unat (tx_head ?s1) < 2 ^ k" using k by (simp add: ring_next_lt)
    have t1: "unat (tx_tail ?s1) < 2 ^ k" using Suc.prems(2) by simp
    from Suc.IH [OF h1 t1 d1] obtain n where n: "n \<le> d"
      and run: "reclaim_tx_descriptors (2 ^ k) ?s1 =
             Some (?s1\<lparr>tx_head := (ring_next (2 ^ k) ^^ n) (tx_head ?s1)\<rparr>)"
      and seen: "\<forall>i<n. (ring_next (2 ^ k) ^^ i) (tx_head ?s1) \<noteq> tx_tail ?s1 \<and>
         status (tx_ring_mem ?s1 ((ring_next (2 ^ k) ^^ i) (tx_head ?s1))) AND DESC_STATUS_DD \<noteq> 0"
      and stop: "(ring_next (2 ^ k) ^^ n) (tx_head ?s1) = tx_tail ?s1 \<or>
       status (tx_ring_mem ?s1 ((ring_next (2 ^ k) ^^ n) (tx_head ?s1))) AND DESC_STATUS_DD = 0"
      by blast
    have pow: "\<And>i. (ring_next (2 ^ k) ^^ i) (ring_next (2 ^ k) ?h) = (ring_next (2 ^ k) ^^ Suc i) ?h"
      by (simp add: funpow_swap1)
    have "reclaim_tx_descriptors (2 ^ k) s =
        Some (s\<lparr>tx_head := (ring_next (2 ^ k) ^^ Suc n) ?h\<rparr>)"
      using step run by (simp add: funpow_swap1)
    moreover have "\<forall>i<Suc n. (ring_next (2 ^ k) ^^ i) ?h \<noteq> tx_tail s \<and>
         status (tx_ring_mem s ((ring_next (2 ^ k) ^^ i) ?h)) AND DESC_STATUS_DD \<noteq> 0"
    proof (intro allI impI)
      fix i assume "i < Suc n"
      show "(ring_next (2 ^ k) ^^ i) ?h \<noteq> tx_tail s \<and>
         status (tx_ring_mem s ((ring_next (2 ^ k) ^^ i) ?h)) AND DESC_STATUS_DD \<noteq> 0"
      proof (cases i)
        case 0
        then show ?thesis using True by simp
      next
        case (Suc j)
        then have "j < n" using \<open>i < Suc n\<close> by simp
        then show ?thesis using seen Suc by (simp add: funpow_swap1)
      qed
    qed
    moreover have "(ring_next (2 ^ k) ^^ Suc n) ?h = tx_tail s \<or>
       status (tx_ring_mem s ((ring_next (2 ^ k) ^^ Suc n) ?h)) AND DESC_STATUS_DD = 0"
      using stop by (simp add: funpow_swap1)
    ultimately show ?thesis using n by (intro exI [of _ "Suc n"]) simp
  qed
qed

lemma ring_dist_lt: "unat h < 2 ^ k \<Longrightarrow> unat t < 2 ^ k \<Longrightarrow> ring_dist k h t < 2 ^ k"
  unfolding ring_dist_def by (cases "unat h \<le> unat t") auto

lemma ring_next_funpow_fixed:
  assumes "k < 32" "unat h < 2 ^ k" "n < 2 ^ k"
  shows "(ring_next (2 ^ k) ^^ n) h = h \<longleftrightarrow> n = 0"
proof
  assume "(ring_next (2 ^ k) ^^ n) h = h"
  then have "(unat h + n) mod 2 ^ k = unat h"
    using unat_ring_next_funpow [OF assms(1,2), of n] by simp
  then show "n = 0"
    using assms(2,3) by (cases "unat h + n < 2 ^ k") (simp_all add: le_mod_geq)
next
  assume "n = 0"
  then show "(ring_next (2 ^ k) ^^ n) h = h" by simp
qed

lemma send_packet_cases:
  assumes k: "k < 32" and h: "tx_head s < 2 ^ k" and t: "tx_tail s < 2 ^ k"
  shows "\<exists>n<2 ^ k.
      (\<forall>i<n. (ring_next (2 ^ k) ^^ i) (tx_head s) \<noteq> tx_tail s \<and>
         status (tx_ring_mem s ((ring_next (2 ^ k) ^^ i) (tx_head s))) AND DESC_STATUS_DD \<noteq> 0) \<and>
      ((ring_next (2 ^ k) ^^ n) (tx_head s) = tx_tail s \<or>
       status (tx_ring_mem s ((ring_next (2 ^ k) ^^ n) (tx_head s))) AND DESC_STATUS_DD = 0) \<and>
      reclaim_tx_descriptors (2 ^ k) s =
        Some (s\<lparr>tx_head := (ring_next (2 ^ k) ^^ n) (tx_head s)\<rparr>) \<and>
      send_packet (2 ^ k) s data len =
        (if ring_next (2 ^ k) (tx_tail s) \<noteq> tx_head s
         then Some (True, send_packet_body s (ring_next (2 ^ k) (tx_tail s)) data len)
         else if n = 0 then Some (False, s)
         else Some (True, send_packet_body
                 (s\<lparr>tx_head := (ring_next (2 ^ k) ^^ n) (tx_head s)\<rparr>)
                 (ring_next (2 ^ k) (tx_tail s)) data len))"
proof -
  have hu: "unat (tx_head s) < 2 ^ k" and tu: "unat (tx_tail s) < 2 ^ k"
    using h t k by (simp_all add: ring_lt_iff)
  from reclaim_run [OF k hu tu refl] obtain n
    where n: "n \<le> ring_dist k (tx_head s) (tx_tail s)"
      and run: "reclaim_tx_descriptors (2 ^ k) s =
             Some (s\<lparr>tx_head := (ring_next (2 ^ k) ^^ n) (tx_head s)\<rparr>)"
      and seen: "\<forall>i<n. (ring_next (2 ^ k) ^^ i) (tx_head s) \<noteq> tx_tail s \<and>
         status (tx_ring_mem s ((ring_next (2 ^ k) ^^ i) (tx_head s))) AND DESC_STATUS_DD \<noteq> 0"
      and stop: "(ring_next (2 ^ k) ^^ n) (tx_head s) = tx_tail s \<or>
       status (tx_ring_mem s ((ring_next (2 ^ k) ^^ n) (tx_head s))) AND DESC_STATUS_DD = 0"
    by blast
  have nlt: "n < 2 ^ k" using n ring_dist_lt [OF hu tu] by simp
  have fixed: "(ring_next (2 ^ k) ^^ n) (tx_head s) = tx_head s \<longleftrightarrow> n = 0"
    by (rule ring_next_funpow_fixed [OF k hu nlt])
  have send: "send_packet (2 ^ k) s data len =
        (if ring_next (2 ^ k) (tx_tail s) \<noteq> tx_head s
         then Some (True, send_packet_body s (ring_next (2 ^ k) (tx_tail s)) data len)
         else if n = 0 then Some (False, s)
         else Some (True, send_packet_body
                 (s\<lparr>tx_head := (ring_next (2 ^ k) ^^ n) (tx_head s)\<rparr>)
                 (ring_next (2 ^ k) (tx_tail s)) data len))"
  proof (cases "ring_next (2 ^ k) (tx_tail s) \<noteq> tx_head s")
    case True
    then show ?thesis by (simp add: send_packet_def ring_next_def Let_def)
  next
    case False
    then have full: "(tx_tail s + 1) AND (2 ^ k - 1) = tx_head s"
      by (simp add: ring_next_def)
    show ?thesis
    proof (cases "n = 0")
      case True
      then show ?thesis using full run False
        by (simp add: send_packet_def Let_def)
    next
      case nz: False
      then have "(ring_next (2 ^ k) ^^ n) (tx_head s) \<noteq> tx_head s" using fixed by simp
      then show ?thesis using full run False nz
        by (simp add: send_packet_def Let_def ring_next_def)
    qed
  qed
  show ?thesis using nlt seen stop run send by blast
qed

lemma send_packet_body_fields [simp]:
  "tx_tail (send_packet_body s nt d l) = nt"
  "tx_head (send_packet_body s nt d l) = tx_head s"
  "packets_sent (send_packet_body s nt d l) = packets_sent s + 1"
  "tx_buffers (send_packet_body s nt d l) = tx_buffers s"
  "rx_buffers (send_packet_body s nt d l) = rx_buffers s"
  "rx_head (send_packet_body s nt d l) = rx_head s"
  "packets_received (send_packet_body s nt d l) = packets_received s"
  "rx_ring_mem (send_packet_body s nt d l) = rx_ring_mem s"
  "trace (send_packet_body s nt d l) = trace s @ [RegWrite REG_TX_DESC_TAIL nt]"
  "tx_ring_mem (send_packet_body s nt d l) =
     (tx_ring_mem s)(tx_tail s := (tx_ring_mem s (tx_tail s))
        \<lparr>buffer_addr := tx_buffers s + ucast (tx_tail s * MAX_PACKET_SIZE),
         cmd_type_len := ucast l OR DESC_STATUS_EOP, status := 0\<rparr>)"
  "mem (send_packet_body s nt d l) =
     (if 64 \<le> l
      then neon_memcpy (mem s) (tx_buffers s + ucast (tx_tail s * MAX_PACKET_SIZE)) d (unat l)
      else copy_bytes (mem s) (tx_buffers s + ucast (tx_tail s * MAX_PACKET_SIZE)) d (unat l))"
  by (simp_all add: send_packet_body_def Let_def write_reg_def emit_def get_physical_addr_def
      memcpy_def)

lemma send_all_in_order:
  assumes k: "k < 32"
  shows "tx_head s = 0 \<Longrightarrow> unat (tx_tail s) + length ps < 2 ^ k \<Longrightarrow>
    \<exists>s'. send_all (2 ^ k) s ps = Some (replicate (length ps) True, s') \<and>
         packets_sent s' = packets_sent s + of_nat (length ps) \<and>
         tx_head s' = 0 \<and> unat (tx_tail s') = unat (tx_tail s) + length ps"
proof (induction ps arbitrary: s)
  case Nil
  then show ?case by simp
next
  case (Cons p ps)
  obtain d l where p: "p = (d, l)" by (cases p)
  let ?nt = "(tx_tail s + 1) AND (2 ^ k - 1)"
  have lt: "unat (tx_tail s) + 1 < 2 ^ k" using Cons.prems(2) by simp
  have unt: "unat ?nt = unat (tx_tail s) + 1"
    using lt by (simp add: unat_ring_next [OF k])
  then have "unat ?nt \<noteq> unat (tx_head s)" using Cons.prems(1) by simp
  then have ne: "?nt \<noteq> tx_head s" by auto
  let ?s1 = "send_packet_body s ?nt d l"
  have send: "send_packet (2 ^ k) s d l = Some (True, ?s1)"
    using ne by (simp add: send_packet_def Let_def)
  have "tx_head ?s1 = 0" using Cons.prems(1) by simp
  moreover have "unat (tx_tail ?s1) + length ps < 2 ^ k"
    using unt Cons.prems(2) by simp
  ultimately obtain s' where
    run: "send_all (2 ^ k) ?s1 ps = Some (replicate (length ps) True, s')"
    and cnt: "packets_sent s' = packets_sent ?s1 + of_nat (length ps)"
    and hd: "tx_head s' = 0"
    and tl: "unat (tx_tail s') = unat (tx_tail ?s1) + length ps"
    using Cons.IH [of ?s1] by blast
  show ?case
    using send run cnt hd tl unt by (intro exI [of _ s']) (simp add: p)
qed

lemma reclaim_frame:
  assumes "reclaim_tx_descriptors R s = Some s'"
  shows "s' = s\<lparr>tx_head := tx_head s'\<rparr>"
proof (rule reclaim_tx_descriptors.raw_induct
    [where P = "\<lambda>R s s'. s' = s\<lparr>tx_head := tx_head s'\<rparr>", OF _ assms], goal_cases)
  case (1 rec R s s')
  show ?case
  proof (cases "tx_head s \<noteq> tx_tail s \<and> status (tx_ring_mem s (tx_head s)) AND DESC_STATUS_DD \<noteq> 0")
    case True
    then have "rec R (s\<lparr>tx_head := (tx_head s + 1) AND (R - 1)\<rparr>) = Some s'"
      using "1"(2) by simp
    then have "s' = (s\<lparr>tx_head := (tx_head s + 1) AND (R - 1)\<rparr>)\<lparr>tx_head := tx_head s'\<rparr>"
      by (rule "1"(1))
    then show ?thesis by simp
  next
    case False
    then have "s' = s" using "1"(2) by (auto split: if_splits)
    then show ?thesis by simp
  qed
qed

lemma send_packet_success:
  assumes "send_packet R s data len = Some (True, s')"
  shows "\<exists>h. s' = send_packet_body (s\<lparr>tx_head := h\<rparr>) ((tx_tail s + 1) AND (R - 1)) data len"
proof (cases "(tx_tail s + 1) AND (R - 1) = tx_head s")
  case False
  then have "s' = send_packet_body s ((tx_tail s + 1) AND (R - 1)) data len"
    using assms by (simp add: send_packet_def Let_def)
  then have "s' = send_packet_body (s\<lparr>tx_head := tx_head s\<rparr>) ((tx_tail s + 1) AND (R - 1)) data len"
    by simp
  then show ?thesis by blast
next
  case True
  then obtain s1 where r: "reclaim_tx_descriptors R s = Some s1"
    and b: "s' = send_packet_body s1 ((tx_tail s + 1) AND (R - 1)) data len"
    using assms by (auto simp: send_packet_def Let_def split: option.splits if_splits)
  from reclaim_frame [OF r] b
  have "s' = send_packet_body (s\<lparr>tx_head := tx_head s1\<rparr>) ((tx_tail s + 1) AND (R - 1)) data len"
    by simp
  then show ?thesis by blast
qed

lemma send_packet_failure:
  assumes "send_packet R s data len = Some (False, s')"
  shows "s' = s"
proof -
  from assms obtain s1 where r: "reclaim_tx_descriptors R s = Some s1"
    and h: "tx_head s1 = tx_head s" and e: "s' = s1"
    by (auto simp: send_packet_def Let_def split: option.splits if_splits)
  from reclaim_frame [OF r] h have "s1 = s" by simp
  then show ?thesis using e by simp
qed

lemma mem_send_packet_body:
  "mem (send_packet_body s nt data len) =
     (if 64 \<le> len then neon_memcpy (mem s) (tx_slot s) data (unat len)
      else copy_bytes (mem s) (tx_slot s) data (unat len))"
  by (simp add: tx_slot_def)

lemma mem_send_packet_body_outside:
  "\<not> unat (a - tx_slot s) < unat len \<Longrightarrow> mem (send_packet_body s nt data len) a = mem s a"
  by (simp add: mem_send_packet_body neon_memcpy_outside copy_bytes_outside del: send_packet_body_fields)

lemma unat_len_lt: "unat (len :: 16 word) < 2 ^ 64"
proof -
  have "unat len < 2 ^ 16" using unsigned_less [of len] by simp
  then show ?thesis by simp
qed

lemma mem_send_packet_body_copied:
  "no_clobber (tx_slot s) data (unat len) \<Longrightarrow>
   mem (send_packet_body s nt data len) = copied (mem s) (tx_slot s) data (unat len)"
  using unat_len_lt [of len]
  by (simp add: mem_send_packet_body neon_memcpy_copied copy_bytes_copied del: send_packet_body_fields)

lemma copied_inside:
  "i < n \<Longrightarrow> n \<le> 2 ^ 64 \<Longrightarrow> copied m d s n (d + of_nat i) = m (s + of_nat i)"
  by (simp add: copied_def unat_of_nat)

lemma send_all_append:
  "send_all R s (xs @ ys) =
     (case send_all R s xs of
        None \<Rightarrow> None
      | Some (oks, s1) \<Rightarrow>
          (case send_all R s1 ys of
             None \<Rightarrow> None
           | Some (oks', s2) \<Rightarrow> Some (oks @ oks', s2)))"
  by (induction xs arbitrary: s) (auto split: option.splits prod.splits)

lemma send_all_in_order_descs:
  assumes k: "k < 32"
  shows "tx_head s = 0 \<Longrightarrow> unat (tx_tail s) + length ps < 2 ^ k \<Longrightarrow>
    send_all (2 ^ k) s ps = Some (oks, s') \<Longrightarrow>
    tx_buffers s' = tx_buffers s \<and>
    (\<forall>i. unat (tx_tail s) \<le> unat i \<and> unat i < unat (tx_tail s) + length ps \<longrightarrow>
         status (tx_ring_mem s' i) = 0) \<and>
    (\<forall>i. unat i < unat (tx_tail s) \<longrightarrow> tx_ring_mem s' i = tx_ring_mem s i)"
proof (induction ps arbitrary: s oks)
  case Nil
  then show ?case by auto
next
  case (Cons p ps)
  obtain d l where p: "p = (d, l)" by (cases p)
  let ?nt = "(tx_tail s + 1) AND (2 ^ k - 1)"
  have lt: "unat (tx_tail s) + 1 < 2 ^ k" using Cons.prems(2) by simp
  have unt: "unat ?nt = unat (tx_tail s) + 1"
    using lt by (simp add: unat_ring_next [OF k])
  then have "unat ?nt \<noteq> unat (tx_head s)" using Cons.prems(1) by simp
  then have ne: "?nt \<noteq> tx_head s" by auto
  let ?s1 = "send_packet_body s ?nt d l"
  have send: "send_packet (2 ^ k) s d l = Some (True, ?s1)"
    using ne by (simp add: send_packet_def Let_def)
  from Cons.prems(3) send obtain oks1 where run: "send_all (2 ^ k) ?s1 ps = Some (oks1, s')"
    by (auto simp: p split: option.splits)
  have h1: "tx_head ?s1 = 0" using Cons.prems(1) by simp
  have t1: "unat (tx_tail ?s1) + length ps < 2 ^ k" using unt Cons.prems(2) by simp
  from Cons.IH [OF h1 t1 run]
  have buf: "tx_buffers s' = tx_buffers ?s1"
    and st: "\<And>i. unat (tx_tail ?s1) \<le> unat i \<Longrightarrow> unat i < unat (tx_tail ?s1) + length ps \<Longrightarrow>
         status (tx_ring_mem s' i) = 0"
    and old: "\<And>i. unat i < unat (tx_tail ?s1) \<Longrightarrow> tx_ring_mem s' i = tx_ring_mem ?s1 i"
    by blast+
  have tl1: "unat (tx_tail ?s1) = unat (tx_tail s) + 1" using unt by simp
  show ?case
  proof (intro conjI allI impI)
    show "tx_buffers s' = tx_buffers s" using buf by simp
  next
    fix i :: "32 word"
    assume i: "unat (tx_tail s) \<le> unat i \<and> unat i < unat (tx_tail s) + length (p # ps)"
    show "status (tx_ring_mem s' i) = 0"
    proof (cases "i = tx_tail s")
      case True
      then have "unat i < unat (tx_tail ?s1)" using tl1 by simp
      then have "tx_ring_mem s' i = tx_ring_mem ?s1 i" by (rule old)
      then show ?thesis using True by simp
    next
      case False
      then have "unat i \<noteq> unat (tx_tail s)" by (simp add: word_unat_eq_iff)
      then have "unat (tx_tail ?s1) \<le> unat i" "unat i < unat (tx_tail ?s1) + length ps"
        using i tl1 by simp_all
      then show ?thesis by (rule st)
    qed
  next
    fix i :: "32 word"
    assume i: "unat i < unat (tx_tail s)"
    then have "unat i < unat (tx_tail ?s1)" using tl1 by simp
    then have "tx_ring_mem s' i = tx_ring_mem ?s1 i" by (rule old)
    moreover have "i \<noteq> tx_tail s" using i by auto
    ultimately show "tx_ring_mem s' i = tx_ring_mem s i" by simp
  qed
qed

lemma ring8_fill:
  assumes "tx_head s0 = 0" "tx_tail s0 = 0" "length ps = 7"
  shows "\<exists>s7. send_all 8 s0 ps = Some (replicate 7 True, s7) \<and>
      packets_sent s7 = packets_sent s0 + 7 \<and> tx_head s7 = 0 \<and> tx_tail s7 = 7 \<and>
      tx_buffers s7 = tx_buffers s0 \<and>
      status (tx_ring_mem s7 0) = 0 \<and> status (tx_ring_mem s7 1) = 0"
proof -
  have k: "(3::nat) < 32" by simp
  have t: "unat (tx_tail s0) + length ps < 2 ^ 3" using assms(2,3) by simp
  from send_all_in_order [OF k assms(1) t] obtain s7 where
    run: "send_all (2 ^ 3) s0 ps = Some (replicate (length ps) True, s7)"
    and cnt: "packets_sent s7 = packets_sent s0 + of_nat (length ps)"
    and hd: "tx_head s7 = 0"
    and tl: "unat (tx_tail s7) = unat (tx_tail s0) + length ps"
    by blast
  from send_all_in_order_descs [OF k assms(1) t run]
  have buf: "tx_buffers s7 = tx_buffers s0"
    and st: "\<And>i. unat (tx_tail s0) \<le> unat i \<Longrightarrow> unat i < unat (tx_tail s0) + length ps \<Longrightarrow>
         status (tx_ring_mem s7 i) = 0"
    by blast+
  have "unat (tx_tail s7) = unat (7 :: 32 word)" using tl assms(2,3) by simp
  then have tl7: "tx_tail s7 = 7" by (simp only: word_unat_eq_iff)
  have "status (tx_ring_mem s7 0) = 0" "status (tx_ring_mem s7 1) = 0"
    using assms(2,3) by (simp_all add: st)
  then show ?thesis
    using run cnt hd tl7 buf assms(3) by (intro exI [of _ s7]) simp
qed

lemma ring8_full_then_reclaim:
  assumes "tx_head s7 = 0" "tx_tail s7 = 7"
    and "status (tx_ring_mem s7 0) = 0" "status (tx_ring_mem s7 1) = 0"
  shows "send_packet 8 s7 d8 l8 = Some (False, s7)"
    and "send_packet 8 (hw_complete_tx 0 s7) d9 l9 =
      Some (True, send_packet_body ((hw_complete_tx 0 s7)\<lparr>tx_head := 1\<rparr>) 0 d9 l9)"
proof -
  have "reclaim_tx_descriptors 8 s7 = Some s7"
    using assms by (subst reclaim_tx_descriptors.simps) simp
  then show "send_packet 8 s7 d8 l8 = Some (False, s7)"
    using assms by (simp add: send_packet_def)
  let ?h = "hw_complete_tx 0 s7"
  have f: "tx_head ?h = 0" "tx_tail ?h = 7"
    "status (tx_ring_mem ?h 0) AND DESC_STATUS_DD \<noteq> 0"
    "status (tx_ring_mem ?h 1) AND DESC_STATUS_DD = 0"
    using assms by (simp_all add: hw_complete_tx_def DESC_STATUS_DD_def)
  have "reclaim_tx_descriptors 8 ?h = reclaim_tx_descriptors 8 (?h\<lparr>tx_head := 1\<rparr>)"
    using f by (subst reclaim_tx_descriptors.simps) simp
  also have "\<dots> = Some (?h\<lparr>tx_head := 1\<rparr>)"
    using f by (subst reclaim_tx_descriptors.simps) (simp add: hw_complete_tx_def)
  finally show "send_packet 8 ?h d9 l9 =
      Some (True, send_packet_body (?h\<lparr>tx_head := 1\<rparr>) 0 d9 l9)"
    using f by (simp add: send_packet_def)
qed

lemma slot0_outside_slot7:
  assumes "unat ((a :: 64 word) - b) < 9216" "n \<le> 9216"
  shows "\<not> unat (a - (b + 64512)) < n"
proof -
  have e: "a - (b + 64512) = (a - b) - 64512" by simp
  have "unat ((a - b) - 64512) = unat (a - b) + 2 ^ 64 - 64512"
    using assms(1) unat_sub_if' [of "a - b" 64512] by simp
  then have "\<not> unat ((a - b) - 64512) < n" using assms by simp
  then show ?thesis by (subst e)
qed

lemma ring8_scenario:
  assumes "tx_head s0 = 0" "tx_tail s0 = 0" "packets_sent s0 = 0" "length ps = 7"
  shows "\<exists>s7 s9.
      send_all 8 s0 (ps @ [(d8, l8)]) = Some (replicate 7 True @ [False], s7) \<and>
      unat (packets_sent s7) = 7 \<and>
      send_packet 8 (hw_complete_tx 0 s7) d9 l9 = Some (True, s9) \<and>
      unat (packets_sent s9) = 8 \<and> tx_head s9 = 1 \<and> tx_tail s9 = 0 \<and>
      buffer_addr (tx_ring_mem s9 7) = tx_buffers s7 + 7 * 9216 \<and>
      cmd_type_len (tx_ring_mem s9 7) = ucast l9 OR DESC_STATUS_EOP \<and>
      tx_ring_mem s9 0 = tx_ring_mem (hw_complete_tx 0 s7) 0 \<and>
      mem s9 = (if 64 \<le> l9 then neon_memcpy (mem s7) (tx_buffers s7 + 7 * 9216) d9 (unat l9)
                else copy_bytes (mem s7) (tx_buffers s7 + 7 * 9216) d9 (unat l9)) \<and>
      (unat l9 \<le> 9216 \<longrightarrow> (\<forall>a. unat (a - tx_buffers s7) < 9216 \<longrightarrow> mem s9 a = mem s7 a))"
proof -
  from ring8_fill [OF assms(1,2,4)] obtain s7 where
    run: "send_all 8 s0 ps = Some (replicate 7 True, s7)"
    and cnt: "packets_sent s7 = packets_sent s0 + 7"
    and hd: "tx_head s7 = 0" and tl: "tx_tail s7 = 7"
    and st: "status (tx_ring_mem s7 0) = 0" "status (tx_ring_mem s7 1) = 0"
    by blast
  let ?h = "hw_complete_tx 0 s7"
  let ?s9 = "send_packet_body (?h\<lparr>tx_head := 1\<rparr>) 0 d9 l9"
  note full = ring8_full_then_reclaim [OF hd tl st]
  have a: "send_all 8 s0 (ps @ [(d8, l8)]) = Some (replicate 7 True @ [False], s7)"
    by (simp add: send_all_append run full(1))
  have b: "unat (packets_sent s7) = 7" using cnt assms(3) by simp
  have c: "send_packet 8 ?h d9 l9 = Some (True, ?s9)" by (rule full(2))
  have hf: "tx_tail ?h = 7" "tx_buffers ?h = tx_buffers s7" "mem ?h = mem s7"
    "packets_sent ?h = packets_sent s7"
    using tl by (simp_all add: hw_complete_tx_def)
  have slot: "tx_slot (?h\<lparr>tx_head := 1\<rparr>) = tx_buffers s7 + 7 * 9216"
    using hf by (simp add: tx_slot_def MAX_PACKET_SIZE_def)
  have d: "unat (packets_sent ?s9) = 8" using cnt assms(3) hf by simp
  have e: "tx_head ?s9 = 1" "tx_tail ?s9 = 0" by simp_all
  have f: "buffer_addr (tx_ring_mem ?s9 7) = tx_buffers s7 + 7 * 9216"
    "cmd_type_len (tx_ring_mem ?s9 7) = ucast l9 OR DESC_STATUS_EOP"
    "tx_ring_mem ?s9 0 = tx_ring_mem ?h 0"
    using hf by (simp_all add: MAX_PACKET_SIZE_def)
  have g: "mem ?s9 = (if 64 \<le> l9 then neon_memcpy (mem s7) (tx_buffers s7 + 7 * 9216) d9 (unat l9)
                else copy_bytes (mem s7) (tx_buffers s7 + 7 * 9216) d9 (unat l9))"
    using hf by (simp add: MAX_PACKET_SIZE_def)
  have h: "unat l9 \<le> 9216 \<longrightarrow> (\<forall>a. unat (a - tx_buffers s7) < 9216 \<longrightarrow> mem ?s9 a = mem s7 a)"
  proof (intro impI allI)
    fix a assume "unat l9 \<le> 9216" "unat (a - tx_buffers s7) < 9216"
    then have "\<not> unat (a - (tx_buffers s7 + 64512)) < unat l9"
      by (intro slot0_outside_slot7)
    then have "\<not> unat (a - tx_slot (?h\<lparr>tx_head := 1\<rparr>)) < unat l9"
      by (simp add: slot)
    then have "mem ?s9 a = mem (?h\<lparr>tx_head := 1\<rparr>) a"
      by (rule mem_send_packet_body_outside)
    then show "mem ?s9 a = mem s7 a" using hf by simp
  qed
  show ?thesis
    by (rule exI [where x = s7], rule exI [where x = ?s9]) (intro conjI a b c d e f g h)
qed

lemma ring_prev_next:
  assumes k: "k < 32" and h: "(h :: 32 word) < 2 ^ k"
  shows "(ring_next (2 ^ k) h - 1) AND (2 ^ k - 1) = h"
proof -
  have hu: "unat h < 2 ^ k" using assms by (simp add: ring_lt_iff)
  show ?thesis
  proof (cases "unat h + 1 = 2 ^ k")
    case True
    then have "unat (ring_next (2 ^ k) h) = 0" using k by (simp add: unat_ring_next')
    then have z: "ring_next (2 ^ k) h = 0" by (simp add: unat_eq_0)
    have "(2 ^ k :: 32 word) \<noteq> 0" using unat_ring_size [OF k] by (metis power_not_zero unat_0 zero_neq_numeral)
    then have "unat (2 ^ k - 1 :: 32 word) = 2 ^ k - 1"
      using unat_ring_size [OF k] by (simp add: unat_minus_one)
    then have "unat (2 ^ k - 1 :: 32 word) = unat h" using True by simp
    then have "(2 ^ k - 1 :: 32 word) = h" by (simp only: word_unat_eq_iff)
    then show ?thesis by (simp add: z)
  next
    case False
    then have u: "unat (ring_next (2 ^ k) h) = unat h + 1"
      using k hu by (simp add: unat_ring_next')
    then have "ring_next (2 ^ k) h \<noteq> 0" by (metis Suc_eq_plus1 nat.simps(3) unat_0)
    then have "unat (ring_next (2 ^ k) h - 1) = unat h"
      using u by (simp add: unat_minus_one)
    then have "unat ((ring_next (2 ^ k) h - 1) AND (2 ^ k - 1)) = unat h"
      using hu by (simp add: unat_and_ring_mask)
    then show ?thesis by (simp only: word_unat_eq_iff)
  qed
qed

lemma handler_calls_append: "handler_calls (xs @ ys) = handler_calls xs @ handler_calls ys"
  by (induction xs rule: handler_calls.induct) simp_all

section \<open>What initialize leaves behind\<close>

lemma reset_wait_never_clears:
  "i \<le> 1000 \<Longrightarrow> (\<forall>j. i \<le> j \<and> j < 1000 \<longrightarrow> ctrl_reads env j AND CTRL_RESET \<noteq> 0) \<Longrightarrow>
   reset_wait env i s =
     (False, s\<lparr>trace := trace s @ map (\<lambda>j. RegRead REG_CTRL (ctrl_reads env j)) [i..<1000]\<rparr>)"
proof (induction env i s rule: reset_wait.induct)
  case (1 env i s)
  show ?case
  proof (cases "i < 1000")
    case True
    then have stuck: "ctrl_reads env i AND CTRL_RESET \<noteq> 0" using "1.prems" by simp
    have "reset_wait env i s = reset_wait env (Suc i) (read_reg REG_CTRL (ctrl_reads env i) s)"
      using True stuck by (subst reset_wait.simps) (simp add: Let_def)
    also have "\<dots> = (False, (read_reg REG_CTRL (ctrl_reads env i) s)
        \<lparr>trace := trace (read_reg REG_CTRL (ctrl_reads env i) s)
           @ map (\<lambda>j. RegRead REG_CTRL (ctrl_reads env j)) [Suc i..<1000]\<rparr>)"
      using True stuck "1.prems" by (intro "1.IH") auto
    finally show ?thesis
      using True by (simp add: read_reg_def emit_def upt_conv_Cons)
  next
    case False
    with "1.prems" have "i = 1000" by simp
    then show ?thesis by (subst reset_wait.simps) simp
  qed
qed

lemma reset_wait_trace:
  "\<exists>k. k \<le> 1000 - i \<and>
       snd (reset_wait env i s) =
         s\<lparr>trace := trace s @ map (\<lambda>j. RegRead REG_CTRL (ctrl_reads env j)) [i..<i + k]\<rparr>"
proof (induction env i s rule: reset_wait.induct)
  case (1 env i s)
  show ?case
  proof (cases "i < 1000")
    case False
    then have "reset_wait env i s = (False, s)" by (subst reset_wait.simps) simp
    then show ?thesis by (intro exI [of _ 0]) simp
  next
    case True
    show ?thesis
    proof (cases "ctrl_reads env i AND CTRL_RESET = 0")
      case clear: True
      have "reset_wait env i s = (True, read_reg REG_CTRL (ctrl_reads env i) s)"
        using True clear by (subst reset_wait.simps) (simp add: Let_def)
      then show ?thesis using True
        by (intro exI [of _ 1]) (simp add: read_reg_def emit_def)
    next
      case stuck: False
      let ?s1 = "read_reg REG_CTRL (ctrl_reads env i) s"
      have step: "reset_wait env i s = reset_wait env (Suc i) ?s1"
        using True stuck by (subst reset_wait.simps) (simp add: Let_def)
      from "1.IH" [OF True refl refl stuck] obtain k where
        k: "k \<le> 1000 - Suc i"
        and eq: "snd (reset_wait env (Suc i) ?s1) =
          ?s1\<lparr>trace := trace ?s1 @ map (\<lambda>j. RegRead REG_CTRL (ctrl_reads env j)) [Suc i..<Suc i + k]\<rparr>"
        by blast
      have "[i..<i + Suc k] = i # [Suc i..<Suc i + k]"
        by (simp add: upt_conv_Cons)
      then show ?thesis using k eq step True
        by (intro exI [of _ "Suc k"]) (simp add: read_reg_def emit_def)
    qed
  qed
qed


lemma setup_rx_descriptors_frame:
  "setup_rx_descriptors R i s = s\<lparr>rx_ring_mem := rx_ring_mem (setup_rx_descriptors R i s)\<rparr>"
proof (induction R i s rule: setup_rx_descriptors.induct)
  case (1 R i s)
  show ?case
  proof (cases "i < R")
    case True
    let ?s' = "s\<lparr>rx_ring_mem := (rx_ring_mem s)
                (i := (rx_ring_mem s i)
                   \<lparr>rx_buffer_addr :=
                      get_physical_addr (rx_buffers s + ucast (i * MAX_PACKET_SIZE))\<rparr>)\<rparr>"
    have step: "setup_rx_descriptors R i s = setup_rx_descriptors R (i + 1) ?s'"
      by (subst setup_rx_descriptors.simps) (simp add: True)
    have "setup_rx_descriptors R (i + 1) ?s' =
        ?s'\<lparr>rx_ring_mem := rx_ring_mem (setup_rx_descriptors R (i + 1) ?s')\<rparr>"
      by (rule "1.IH" [OF True])
    also have "\<dots> = s\<lparr>rx_ring_mem := rx_ring_mem (setup_rx_descriptors R (i + 1) ?s')\<rparr>"
      by simp
    finally show ?thesis by (simp only: step)
  next
    case False
    have "setup_rx_descriptors R i s = s"
      by (subst setup_rx_descriptors.simps) (simp add: False)
    then show ?thesis by simp
  qed
qed

lemma trace_setup_rx_descriptors [simp]: "trace (setup_rx_descriptors R i s) = trace s"
  by (subst setup_rx_descriptors_frame) simp

lemma reset_device_frame:
  "snd (reset_device env s) = s\<lparr>trace := trace (snd (reset_device env s))\<rparr>"
proof -
  obtain k where eq: "snd (reset_wait env 0 (write_reg REG_CTRL CTRL_RESET s)) =
       (write_reg REG_CTRL CTRL_RESET s)\<lparr>trace := trace (write_reg REG_CTRL CTRL_RESET s)
          @ map (\<lambda>j. RegRead REG_CTRL (ctrl_reads env j)) [0..<0 + k]\<rparr>"
    using reset_wait_trace [of 0 env "write_reg REG_CTRL CTRL_RESET s"] by blast
  show ?thesis
    unfolding reset_device_def eq by (simp add: write_reg_def emit_def)
qed

lemma map_bar0_frame:
  "fst (map_bar0 env s) \<Longrightarrow>
   snd (map_bar0 env s) = s\<lparr>bar0_size := lseek_end env, bar0_base := mmap_result env,
      trace := trace (snd (map_bar0 env s))\<rparr>"
  by (simp add: map_bar0_def Let_def emit_def split: if_splits)

lemma setup_rx_descriptors_fields [simp]:
  "bar0_base (setup_rx_descriptors R i s) = bar0_base s"
  "bar0_size (setup_rx_descriptors R i s) = bar0_size s"
  "rx_ring (setup_rx_descriptors R i s) = rx_ring s"
  "tx_ring (setup_rx_descriptors R i s) = tx_ring s"
  "rx_buffers (setup_rx_descriptors R i s) = rx_buffers s"
  "tx_buffers (setup_rx_descriptors R i s) = tx_buffers s"
  "rx_head (setup_rx_descriptors R i s) = rx_head s"
  "tx_head (setup_rx_descriptors R i s) = tx_head s"
  "tx_tail (setup_rx_descriptors R i s) = tx_tail s"
  "packets_received (setup_rx_descriptors R i s) = packets_received s"
  "packets_sent (setup_rx_descriptors R i s) = packets_sent s"
  "initialized (setup_rx_descriptors R i s) = initialized s"
  "tx_ring_mem (setup_rx_descriptors R i s) = tx_ring_mem s"
  "mem (setup_rx_descriptors R i s) = mem s"
  by (subst setup_rx_descriptors_frame, simp)+

lemma allocate_rings_frame:
  assumes "fst (allocate_rings RXN TXN env s)"
  shows "snd (allocate_rings RXN TXN env s) =
      s\<lparr>rx_ring := alloc_rx_ring env,
        rx_ring_mem := rx_ring_mem (snd (allocate_rings RXN TXN env s)),
        tx_ring := alloc_tx_ring env,
        tx_ring_mem := (\<lambda>i. if i < TXN then zero_tx_desc else tx_ring_mem s i),
        rx_buffers := alloc_rx_buffers env, tx_buffers := alloc_tx_buffers env,
        trace := trace (snd (allocate_rings RXN TXN env s))\<rparr>"
proof -
  from assms have nz: "alloc_rx_ring env \<noteq> 0" "alloc_tx_ring env \<noteq> 0"
    "alloc_rx_buffers env \<noteq> 0" "alloc_tx_buffers env \<noteq> 0"
    by (simp_all add: allocate_rings_def Let_def aligned_alloc_def emit_def split: if_splits)
  define s6 where "s6 = s\<lparr>rx_ring := alloc_rx_ring env,
        rx_ring_mem := (\<lambda>i. if i < RXN then zero_rx_desc else rx_ring_mem s i),
        tx_ring := alloc_tx_ring env,
        tx_ring_mem := (\<lambda>i. if i < TXN then zero_tx_desc else tx_ring_mem s i),
        rx_buffers := alloc_rx_buffers env, tx_buffers := alloc_tx_buffers env,
        trace := trace s @ [Alloc (alloc_rx_ring env), Alloc (alloc_tx_ring env),
                  Alloc (alloc_rx_buffers env), Alloc (alloc_tx_buffers env)]\<rparr>"
  have run: "allocate_rings RXN TXN env s = (True, setup_rx_descriptors RXN 0 s6)"
    using nz by (simp add: allocate_rings_def Let_def aligned_alloc_def emit_def s6_def cong: if_cong)
  show ?thesis
    unfolding run snd_conv by (rule driver.equality) (simp_all add: s6_def)
qed

lemma configure_rings_frame:
  "configure_rings RXN TXN s = s\<lparr>trace := trace (configure_rings RXN TXN s)\<rparr>"
  by (simp add: configure_rings_def Let_def write_reg_def emit_def)

lemma enable_paths_frame:
  "enable_paths env s = s\<lparr>trace := trace (enable_paths env s)\<rparr>"
  by (simp add: enable_paths_def Let_def write_reg_def read_reg_def emit_def)

lemma initialize_ok_steps:
  assumes "fst (initialize RXN TXN env s) = InitOk"
  shows "fst (map_bar0 env s)"
    and "fst (reset_device env (snd (map_bar0 env s)))"
    and "fst (allocate_rings RXN TXN env (snd (reset_device env (snd (map_bar0 env s)))))"
    and "snd (initialize RXN TXN env s) =
      (enable_paths env (configure_rings RXN TXN
         (snd (allocate_rings RXN TXN env (snd (reset_device env (snd (map_bar0 env s))))))))
      \<lparr>initialized := True\<rparr>"
  using assms
  by (simp_all add: initialize_def Let_def split: prod.splits bool.splits)

lemma initialize_ok_frame:
  assumes "fst (initialize RXN TXN env s) = InitOk"
  shows "\<exists>rm t. snd (initialize RXN TXN env s) =
      s\<lparr>bar0_size := lseek_end env, bar0_base := mmap_result env,
        rx_ring := alloc_rx_ring env, rx_ring_mem := rm,
        tx_ring := alloc_tx_ring env,
        tx_ring_mem := (\<lambda>i. if i < TXN then zero_tx_desc else tx_ring_mem s i),
        rx_buffers := alloc_rx_buffers env, tx_buffers := alloc_tx_buffers env,
        trace := t, initialized := True\<rparr>"
proof -
  define s1 where "s1 = snd (map_bar0 env s)"
  define s2 where "s2 = snd (reset_device env s1)"
  define s3 where "s3 = snd (allocate_rings RXN TXN env s2)"
  define s4 where "s4 = configure_rings RXN TXN s3"
  define s5 where "s5 = enable_paths env s4"
  note steps = initialize_ok_steps [OF assms, folded s1_def s2_def s3_def s4_def s5_def]
  have e1: "s1 = s\<lparr>bar0_size := lseek_end env, bar0_base := mmap_result env, trace := trace s1\<rparr>"
    unfolding s1_def by (rule map_bar0_frame [OF steps(1)])
  have e2: "s2 = s1\<lparr>trace := trace s2\<rparr>"
    unfolding s2_def by (rule reset_device_frame)
  have e3: "s3 = s2\<lparr>rx_ring := alloc_rx_ring env, rx_ring_mem := rx_ring_mem s3,
        tx_ring := alloc_tx_ring env,
        tx_ring_mem := (\<lambda>i. if i < TXN then zero_tx_desc else tx_ring_mem s2 i),
        rx_buffers := alloc_rx_buffers env, tx_buffers := alloc_tx_buffers env,
        trace := trace s3\<rparr>"
    unfolding s3_def by (rule allocate_rings_frame [OF steps(3)])
  have e4: "s4 = s3\<lparr>trace := trace s4\<rparr>"
    unfolding s4_def by (rule configure_rings_frame)
  have e5: "s5 = s4\<lparr>trace := trace s5\<rparr>"
    unfolding s5_def by (rule enable_paths_frame)
  have txm: "tx_ring_mem s2 = tx_ring_mem s"
    by (subst e2, subst e1) simp
  have "snd (initialize RXN TXN env s) = s5\<lparr>initialized := True\<rparr>"
    using initialize_ok_steps(4) [OF assms]
    by (simp only: s1_def s2_def s3_def s4_def s5_def)
  also have "\<dots> = s4\<lparr>trace := trace s5, initialized := True\<rparr>"
    by (subst e5) simp
  also have "\<dots> = s3\<lparr>trace := trace s5, initialized := True\<rparr>"
    by (subst e4) simp
  also have "\<dots> = s2\<lparr>rx_ring := alloc_rx_ring env, rx_ring_mem := rx_ring_mem s3,
        tx_ring := alloc_tx_ring env,
        tx_ring_mem := (\<lambda>i. if i < TXN then zero_tx_desc else tx_ring_mem s i),
        rx_buffers := alloc_rx_buffers env, tx_buffers := alloc_tx_buffers env,
        trace := trace s5, initialized := True\<rparr>"
    by (subst e3) (simp add: txm cong: if_cong)
  also have "\<dots> = s1\<lparr>rx_ring := alloc_rx_ring env, rx_ring_mem := rx_ring_mem s3,
        tx_ring := alloc_tx_ring env,
        tx_ring_mem := (\<lambda>i. if i < TXN then zero_tx_desc else tx_ring_mem s i),
        rx_buffers := alloc_rx_buffers env, tx_buffers := alloc_tx_buffers env,
        trace := trace s5, initialized := True\<rparr>"
    by (subst e2) simp
  also have "\<dots> = s\<lparr>bar0_size := lseek_end env, bar0_base := mmap_result env,
        rx_ring := alloc_rx_ring env, rx_ring_mem := rx_ring_mem s3,
        tx_ring := alloc_tx_ring env,
        tx_ring_mem := (\<lambda>i. if i < TXN then zero_tx_desc else tx_ring_mem s i),
        rx_buffers := alloc_rx_buffers env, tx_buffers := alloc_tx_buffers env,
        trace := trace s5, initialized := True\<rparr>"
    by (subst e1) simp
  finally show ?thesis by blast
qed

lemma reset_wait_clears:
  "i \<le> j \<Longrightarrow> j < 1000 \<Longrightarrow> ctrl_reads env j AND CTRL_RESET = 0 \<Longrightarrow> fst (reset_wait env i s)"
proof (induction env i s rule: reset_wait.induct)
  case (1 env i s)
  show ?case
  proof (cases "ctrl_reads env i AND CTRL_RESET = 0")
    case True
    then show ?thesis using "1.prems" by (subst reset_wait.simps) (simp add: Let_def)
  next
    case False
    then have "i \<noteq> j" using "1.prems" by auto
    then have lt: "Suc i \<le> j" "i < 1000" using "1.prems" by auto
    have "fst (reset_wait env (Suc i) (read_reg REG_CTRL (ctrl_reads env i) s))"
      using "1.IH" [OF lt(2) refl refl False lt(1) "1.prems"(2,3)] .
    then show ?thesis using False lt(2) by (subst reset_wait.simps) (simp add: Let_def)
  qed
qed

lemma initialize_succeeds:
  assumes "0 \<le> open_fd env" "mmap_result env \<noteq> MAP_FAILED"
    and "j < 1000" "ctrl_reads env j AND CTRL_RESET = 0"
    and "alloc_rx_ring env \<noteq> 0" "alloc_tx_ring env \<noteq> 0"
        "alloc_rx_buffers env \<noteq> 0" "alloc_tx_buffers env \<noteq> 0"
  shows "fst (initialize RXN TXN env s) = InitOk"
proof -
  have m: "fst (map_bar0 env s)"
    using assms(1,2) by (simp add: map_bar0_def Let_def emit_def)
  have r: "fst (reset_device env (snd (map_bar0 env s)))"
    unfolding reset_device_def by (rule reset_wait_clears [OF _ assms(3,4)]) simp
  have a: "fst (allocate_rings RXN TXN env (snd (reset_device env (snd (map_bar0 env s)))))"
    using assms(5-8) by (simp add: allocate_rings_def Let_def aligned_alloc_def emit_def)
  show ?thesis
    using m r a by (simp add: initialize_def Let_def case_prod_beta)
qed

lemma initialize_env_ok: "fst (initialize RXN TXN env_ok s) = InitOk"
  by (rule initialize_succeeds [where j = 0]) (simp_all add: env_ok_def MAP_FAILED_def)

lemma initialize_fresh:
  assumes "fst (initialize RXN TXN env (ARM64NICDriver m rxm txm)) = InitOk"
  shows "tx_head (snd (initialize RXN TXN env (ARM64NICDriver m rxm txm))) = 0"
    and "tx_tail (snd (initialize RXN TXN env (ARM64NICDriver m rxm txm))) = 0"
    and "packets_sent (snd (initialize RXN TXN env (ARM64NICDriver m rxm txm))) = 0"
    and "rx_head (snd (initialize RXN TXN env (ARM64NICDriver m rxm txm))) = 0"
    and "packets_received (snd (initialize RXN TXN env (ARM64NICDriver m rxm txm))) = 0"
proof -
  let ?s0 = "snd (initialize RXN TXN env (ARM64NICDriver m rxm txm))"
  from initialize_ok_frame [OF assms] obtain rm t where
    s0: "?s0 = (ARM64NICDriver m rxm txm)
      \<lparr>bar0_size := lseek_end env, bar0_base := mmap_result env,
        rx_ring := alloc_rx_ring env, rx_ring_mem := rm,
        tx_ring := alloc_tx_ring env,
        tx_ring_mem := (\<lambda>i. if i < TXN then zero_tx_desc
                             else tx_ring_mem (ARM64NICDriver m rxm txm) i),
        rx_buffers := alloc_rx_buffers env, tx_buffers := alloc_tx_buffers env,
        trace := t, initialized := True\<rparr>"
    by blast
  show "tx_head ?s0 = 0" "tx_tail ?s0 = 0" "packets_sent ?s0 = 0" "rx_head ?s0 = 0"
    "packets_received ?s0 = 0"
    unfolding s0 by (simp_all add: ARM64NICDriver_def)
qed

lemma base_address_split:
  "base_address (ucast (p AND 0xFFFFFFFF)) (ucast (drop_bit 32 p)) = (p :: 64 word)"
proof -
  have m: "(0xFFFFFFFF :: 64 word) = mask 32" by (simp add: mask_eq_exp_minus_1)
  show ?thesis
    unfolding base_address_def m
    by (rule bit_word_eqI) (auto simp: bit_simps)
qed

lemma writes_of_append: "writes_of r (xs @ ys) = writes_of r xs @ writes_of r ys"
  by (induction r xs rule: writes_of.induct) simp_all

lemma writes_of_reads [simp]: "writes_of r (map (\<lambda>j. RegRead r' (f j)) js) = []"
  by (induction js) simp_all

lemma setup_rx_descriptors_content:
  "(\<forall>j. i \<le> j \<and> j < R \<longrightarrow>
      rx_buffer_addr (rx_ring_mem (setup_rx_descriptors R i s) j)
        = rx_buffers s + ucast (j * MAX_PACKET_SIZE)) \<and>
   (\<forall>j. j < i \<longrightarrow> rx_ring_mem (setup_rx_descriptors R i s) j = rx_ring_mem s j)"
proof (induction R i s rule: setup_rx_descriptors.induct)
  case (1 R i s)
  show ?case
  proof (cases "i < R")
    case False
    then have "setup_rx_descriptors R i s = s"
      by (subst setup_rx_descriptors.simps) simp
    then show ?thesis using False by auto
  next
    case True
    let ?s' = "s\<lparr>rx_ring_mem := (rx_ring_mem s)
                (i := (rx_ring_mem s i)
                   \<lparr>rx_buffer_addr :=
                      get_physical_addr (rx_buffers s + ucast (i * MAX_PACKET_SIZE))\<rparr>)\<rparr>"
    have step: "setup_rx_descriptors R i s = setup_rx_descriptors R (i + 1) ?s'"
      by (subst setup_rx_descriptors.simps) (simp add: True)
    from "1.IH" [OF True]
    have new: "\<And>j. i + 1 \<le> j \<Longrightarrow> j < R \<Longrightarrow>
        rx_buffer_addr (rx_ring_mem (setup_rx_descriptors R (i + 1) ?s') j)
          = rx_buffers ?s' + ucast (j * MAX_PACKET_SIZE)"
      and old: "\<And>j. j < i + 1 \<Longrightarrow>
        rx_ring_mem (setup_rx_descriptors R (i + 1) ?s') j = rx_ring_mem ?s' j"
      by blast+
    have lt: "i < i + 1" using True by unat_arith
    show ?thesis
    proof (intro conjI allI impI)
      fix j assume j: "i \<le> j \<and> j < R"
      show "rx_buffer_addr (rx_ring_mem (setup_rx_descriptors R i s) j)
          = rx_buffers s + ucast (j * MAX_PACKET_SIZE)"
      proof (cases "j = i")
        case True
        then show ?thesis using old [OF lt] by (simp add: step get_physical_addr_def)
      next
        case False
        then have "i < j" using j by (auto simp: less_le)
        then have "i + 1 \<le> j" by (rule inc_le)
        then show ?thesis using new [of j] j by (simp add: step)
      qed
    next
      fix j assume j: "j < i"
      then have "j < i + 1" using lt by simp
      then show "rx_ring_mem (setup_rx_descriptors R i s) j = rx_ring_mem s j"
        using old [of j] j by (simp add: step)
    qed
  qed
qed

lemma allocate_rings_ok_rx:
  assumes "fst (allocate_rings RXN TXN env s)"
  shows "\<forall>i<RXN. rx_buffer_addr (rx_ring_mem (snd (allocate_rings RXN TXN env s)) i)
           = alloc_rx_buffers env + ucast (i * MAX_PACKET_SIZE)"
proof -
  from assms have nz: "alloc_rx_ring env \<noteq> 0" "alloc_tx_ring env \<noteq> 0"
    "alloc_rx_buffers env \<noteq> 0" "alloc_tx_buffers env \<noteq> 0"
    by (simp_all add: allocate_rings_def Let_def aligned_alloc_def emit_def split: if_splits)
  define s6 where "s6 = s\<lparr>rx_ring := alloc_rx_ring env,
        rx_ring_mem := (\<lambda>i. if i < RXN then zero_rx_desc else rx_ring_mem s i),
        tx_ring := alloc_tx_ring env,
        tx_ring_mem := (\<lambda>i. if i < TXN then zero_tx_desc else tx_ring_mem s i),
        rx_buffers := alloc_rx_buffers env, tx_buffers := alloc_tx_buffers env,
        trace := trace s @ [Alloc (alloc_rx_ring env), Alloc (alloc_tx_ring env),
                  Alloc (alloc_rx_buffers env), Alloc (alloc_tx_buffers env)]\<rparr>"
  have run: "allocate_rings RXN TXN env s = (True, setup_rx_descriptors RXN 0 s6)"
    using nz by (simp add: allocate_rings_def Let_def aligned_alloc_def emit_def s6_def cong: if_cong)
  have "rx_buffers s6 = alloc_rx_buffers env" by (simp add: s6_def)
  then show ?thesis
    using setup_rx_descriptors_content [of 0 RXN s6] by (simp add: run)
qed

lemma writes_map_bar0 [simp]:
  "writes_of r (trace (snd (map_bar0 env s))) = writes_of r (trace s)"
  by (simp add: map_bar0_def Let_def emit_def writes_of_append)

lemma writes_allocate_rings [simp]:
  "writes_of r (trace (snd (allocate_rings RXN TXN env s))) = writes_of r (trace s)"
  by (simp add: allocate_rings_def Let_def aligned_alloc_def emit_def writes_of_append)

lemma writes_reset_device:
  "r \<noteq> REG_CTRL \<Longrightarrow> writes_of r (trace (snd (reset_device env s))) = writes_of r (trace s)"
proof -
  assume r: "r \<noteq> REG_CTRL"
  obtain k where eq: "snd (reset_wait env 0 (write_reg REG_CTRL CTRL_RESET s)) =
       (write_reg REG_CTRL CTRL_RESET s)\<lparr>trace := trace (write_reg REG_CTRL CTRL_RESET s)
          @ map (\<lambda>j. RegRead REG_CTRL (ctrl_reads env j)) [0..<0 + k]\<rparr>"
    using reset_wait_trace [of 0 env "write_reg REG_CTRL CTRL_RESET s"] by blast
  show ?thesis
    unfolding reset_device_def eq using r
    by (simp add: writes_of_append write_reg_def emit_def)
qed

lemma writes_enable_paths:
  "r \<noteq> REG_RX_CTRL \<Longrightarrow> r \<noteq> REG_TX_CTRL \<Longrightarrow>
   writes_of r (trace (enable_paths env s)) = writes_of r (trace s)"
  by (simp add: enable_paths_def Let_def write_reg_def read_reg_def emit_def writes_of_append)

lemma trace_configure_rings:
  "trace (configure_rings RXN TXN s) = trace s @
     [RegWrite REG_RX_DESC_BASE_LO (ucast (rx_ring s AND 0xFFFFFFFF)),
      RegWrite REG_RX_DESC_BASE_HI (ucast (drop_bit 32 (rx_ring s))),
      RegWrite REG_RX_DESC_LEN (ucast ((ucast RXN :: 64 word) * ucast sizeof_RxDescriptor)),
      RegWrite REG_RX_DESC_HEAD 0,
      RegWrite REG_RX_DESC_TAIL (RXN - 1),
      RegWrite REG_TX_DESC_BASE_LO (ucast (tx_ring s AND 0xFFFFFFFF)),
      RegWrite REG_TX_DESC_BASE_HI (ucast (drop_bit 32 (tx_ring s))),
      RegWrite REG_TX_DESC_LEN (ucast ((ucast TXN :: 64 word) * ucast sizeof_TxDescriptor)),
      RegWrite REG_TX_DESC_HEAD 0,
      RegWrite REG_TX_DESC_TAIL 0]"
  by (simp add: configure_rings_def Let_def write_reg_def emit_def get_physical_addr_def)

lemmas reg_defs = REG_CTRL_def REG_STATUS_def REG_RX_CTRL_def REG_TX_CTRL_def
  REG_RX_DESC_BASE_LO_def REG_RX_DESC_BASE_HI_def REG_RX_DESC_LEN_def REG_RX_DESC_HEAD_def
  REG_RX_DESC_TAIL_def REG_TX_DESC_BASE_LO_def REG_TX_DESC_BASE_HI_def REG_TX_DESC_LEN_def
  REG_TX_DESC_HEAD_def REG_TX_DESC_TAIL_def

lemma initialize_ok_base_registers:
  assumes ok: "fst (initialize RXN TXN env s) = InitOk"
    and r: "r \<in> {REG_RX_DESC_BASE_LO, REG_RX_DESC_BASE_HI, REG_TX_DESC_BASE_LO, REG_TX_DESC_BASE_HI}"
  shows "writes_of r (trace (snd (initialize RXN TXN env s))) =
     writes_of r (trace s) @
       (if r = REG_RX_DESC_BASE_LO then [ucast (alloc_rx_ring env AND 0xFFFFFFFF)]
        else if r = REG_RX_DESC_BASE_HI then [ucast (drop_bit 32 (alloc_rx_ring env))]
        else if r = REG_TX_DESC_BASE_LO then [ucast (alloc_tx_ring env AND 0xFFFFFFFF)]
        else [ucast (drop_bit 32 (alloc_tx_ring env))])"
proof -
  define s1 where "s1 = snd (map_bar0 env s)"
  define s2 where "s2 = snd (reset_device env s1)"
  define s3 where "s3 = snd (allocate_rings RXN TXN env s2)"
  note steps = initialize_ok_steps [OF ok]
  have a3: "fst (allocate_rings RXN TXN env s2)"
    using steps(3) by (simp only: s1_def s2_def)
  have e3: "s3 = s2\<lparr>rx_ring := alloc_rx_ring env, rx_ring_mem := rx_ring_mem s3,
        tx_ring := alloc_tx_ring env,
        tx_ring_mem := (\<lambda>i. if i < TXN then zero_tx_desc else tx_ring_mem s2 i),
        rx_buffers := alloc_rx_buffers env, tx_buffers := alloc_tx_buffers env,
        trace := trace s3\<rparr>"
    unfolding s3_def by (rule allocate_rings_frame [OF a3])
  have p3: "rx_ring s3 = alloc_rx_ring env" "tx_ring s3 = alloc_tx_ring env"
    by (subst e3, simp)+
  have rne: "r \<noteq> REG_CTRL" "r \<noteq> REG_RX_CTRL" "r \<noteq> REG_TX_CTRL"
    using r by (auto simp: reg_defs)
  have w3: "writes_of r (trace s3) = writes_of r (trace s)"
    by (simp add: s3_def s2_def s1_def writes_reset_device [OF rne(1)])
  have fin: "snd (initialize RXN TXN env s) =
      (enable_paths env (configure_rings RXN TXN s3))\<lparr>initialized := True\<rparr>"
    using steps(4) by (simp only: s1_def s2_def s3_def)
  show ?thesis
    using r unfolding fin
    by (auto simp: writes_enable_paths [OF rne(2,3)] trace_configure_rings writes_of_append
        w3 p3 reg_defs)
qed

lemma initialize_ok_pointers:
  assumes ok: "fst (initialize RXN TXN env s) = InitOk"
  shows "rx_ring (snd (initialize RXN TXN env s)) = alloc_rx_ring env"
    and "tx_ring (snd (initialize RXN TXN env s)) = alloc_tx_ring env"
    and "rx_buffers (snd (initialize RXN TXN env s)) = alloc_rx_buffers env"
    and "tx_buffers (snd (initialize RXN TXN env s)) = alloc_tx_buffers env"
    and "bar0_base (snd (initialize RXN TXN env s)) = mmap_result env"
    and "bar0_size (snd (initialize RXN TXN env s)) = lseek_end env"
    and "initialized (snd (initialize RXN TXN env s))"
proof -
  from initialize_ok_frame [OF ok] obtain rm t where
    s0: "snd (initialize RXN TXN env s) =
      s\<lparr>bar0_size := lseek_end env, bar0_base := mmap_result env,
        rx_ring := alloc_rx_ring env, rx_ring_mem := rm,
        tx_ring := alloc_tx_ring env,
        tx_ring_mem := (\<lambda>i. if i < TXN then zero_tx_desc else tx_ring_mem s i),
        rx_buffers := alloc_rx_buffers env, tx_buffers := alloc_tx_buffers env,
        trace := t, initialized := True\<rparr>"
    by blast
  show "rx_ring (snd (initialize RXN TXN env s)) = alloc_rx_ring env"
    "tx_ring (snd (initialize RXN TXN env s)) = alloc_tx_ring env"
    "rx_buffers (snd (initialize RXN TXN env s)) = alloc_rx_buffers env"
    "tx_buffers (snd (initialize RXN TXN env s)) = alloc_tx_buffers env"
    "bar0_base (snd (initialize RXN TXN env s)) = mmap_result env"
    "bar0_size (snd (initialize RXN TXN env s)) = lseek_end env"
    "initialized (snd (initialize RXN TXN env s))"
    unfolding s0 by simp_all
qed

lemma initialize_ok_rx_descs:
  assumes ok: "fst (initialize RXN TXN env s) = InitOk"
  shows "\<forall>i<RXN. rx_buffer_addr (rx_ring_mem (snd (initialize RXN TXN env s)) i)
           = alloc_rx_buffers env + ucast (i * MAX_PACKET_SIZE)"
proof -
  note steps = initialize_ok_steps [OF ok]
  let ?s3 = "snd (allocate_rings RXN TXN env (snd (reset_device env (snd (map_bar0 env s)))))"
  have "rx_ring_mem (snd (initialize RXN TXN env s)) = rx_ring_mem ?s3"
    unfolding steps(4)
    by (subst enable_paths_frame, subst configure_rings_frame) simp
  then show ?thesis using allocate_rings_ok_rx [OF steps(3)] by simp
qed

lemma base_address_parts:
  "ucast (base_address lo hi) = lo" "ucast (drop_bit 32 (base_address lo hi)) = hi"
  unfolding base_address_def
  by (rule bit_word_eqI; auto simp: bit_simps dest: bit_imp_le_length)+

section \<open>Accounting for mapped and allocated memory\<close>

lemma allocs_of_append: "allocs_of (xs @ ys) = allocs_of xs @ allocs_of ys"
  by (induction xs rule: allocs_of.induct) simp_all

lemma frees_of_append: "frees_of (xs @ ys) = frees_of xs @ frees_of ys"
  by (induction xs rule: frees_of.induct) simp_all

lemma mmaps_of_append: "mmaps_of (xs @ ys) = mmaps_of xs @ mmaps_of ys"
  by (induction xs rule: mmaps_of.induct) simp_all

lemma munmaps_of_append: "munmaps_of (xs @ ys) = munmaps_of xs @ munmaps_of ys"
  by (induction xs rule: munmaps_of.induct) simp_all

lemmas resources_append = allocs_of_append frees_of_append mmaps_of_append munmaps_of_append

lemma resources_of_reads [simp]:
  "allocs_of (map (\<lambda>j. RegRead r (f j)) js) = []"
  "frees_of (map (\<lambda>j. RegRead r (f j)) js) = []"
  "mmaps_of (map (\<lambda>j. RegRead r (f j)) js) = []"
  "munmaps_of (map (\<lambda>j. RegRead r (f j)) js) = []"
  by (induction js) simp_all

lemma owns_constructed: "owns_resources (ARM64NICDriver m rxm txm)"
  by (simp add: owns_resources_def ARM64NICDriver_def)

lemma owns_map_bar0:
  "owns_resources s \<Longrightarrow> bar0_base s = 0 \<Longrightarrow> mmap_result env \<noteq> 0 \<Longrightarrow>
   owns_resources (snd (map_bar0 env s))"
  by (simp add: owns_resources_def map_bar0_def Let_def emit_def resources_append)

lemma owns_reset_device:
  "owns_resources s \<Longrightarrow> owns_resources (snd (reset_device env s))"
proof -
  assume o: "owns_resources s"
  obtain k where eq: "snd (reset_wait env 0 (write_reg REG_CTRL CTRL_RESET s)) =
       (write_reg REG_CTRL CTRL_RESET s)\<lparr>trace := trace (write_reg REG_CTRL CTRL_RESET s)
          @ map (\<lambda>j. RegRead REG_CTRL (ctrl_reads env j)) [0..<0 + k]\<rparr>"
    using reset_wait_trace [of 0 env "write_reg REG_CTRL CTRL_RESET s"] by blast
  show ?thesis
    unfolding reset_device_def eq using o
    by (simp add: owns_resources_def write_reg_def emit_def resources_append)
qed

lemma allocate_rings_trace:
  "trace (snd (allocate_rings RXN TXN env s)) = trace s @
     (if alloc_rx_ring env = 0 then []
      else Alloc (alloc_rx_ring env) #
       (if alloc_tx_ring env = 0 then []
        else Alloc (alloc_tx_ring env) #
         (if alloc_rx_buffers env = 0 then []
          else Alloc (alloc_rx_buffers env) #
           (if alloc_tx_buffers env = 0 then [] else [Alloc (alloc_tx_buffers env)]))))"
  by (simp add: allocate_rings_def Let_def aligned_alloc_def emit_def)

lemma allocate_rings_pointers:
  "rx_ring (snd (allocate_rings RXN TXN env s)) = alloc_rx_ring env"
  "tx_ring (snd (allocate_rings RXN TXN env s)) =
     (if alloc_rx_ring env = 0 then tx_ring s else alloc_tx_ring env)"
  "rx_buffers (snd (allocate_rings RXN TXN env s)) =
     (if alloc_rx_ring env = 0 \<or> alloc_tx_ring env = 0 then rx_buffers s
      else alloc_rx_buffers env)"
  "tx_buffers (snd (allocate_rings RXN TXN env s)) =
     (if alloc_rx_ring env = 0 \<or> alloc_tx_ring env = 0 \<or> alloc_rx_buffers env = 0
      then tx_buffers s else alloc_tx_buffers env)"
  "bar0_base (snd (allocate_rings RXN TXN env s)) = bar0_base s"
  "bar0_size (snd (allocate_rings RXN TXN env s)) = bar0_size s"
  by (simp_all add: allocate_rings_def Let_def aligned_alloc_def emit_def)

lemma owns_allocate_rings:
  assumes "owns_resources s" "rx_ring s = 0" "tx_ring s = 0" "rx_buffers s = 0" "tx_buffers s = 0"
  shows "owns_resources (snd (allocate_rings RXN TXN env s))"
  using assms
  by (simp add: owns_resources_def allocate_rings_trace allocate_rings_pointers resources_append)

lemma owns_other_trace:
  assumes "owns_resources s"
    and "allocs_of t = allocs_of (trace s)" "frees_of t = frees_of (trace s)"
    and "mmaps_of t = mmaps_of (trace s)" "munmaps_of t = munmaps_of (trace s)"
  shows "owns_resources (s\<lparr>trace := t\<rparr>)"
  using assms by (simp add: owns_resources_def)

lemma owns_configure_rings:
  assumes "owns_resources s"
  shows "owns_resources (configure_rings RXN TXN s)"
proof -
  have "owns_resources (s\<lparr>trace := trace (configure_rings RXN TXN s)\<rparr>)"
    by (rule owns_other_trace [OF assms])
      (simp_all add: trace_configure_rings resources_append)
  then show ?thesis using configure_rings_frame [of RXN TXN s] by simp
qed

lemma trace_enable_paths:
  "trace (enable_paths env s) = trace s @
     [RegRead REG_RX_CTRL (rx_ctrl_read env),
      RegWrite REG_RX_CTRL (rx_ctrl_read env OR CTRL_RX_ENABLE),
      RegRead REG_TX_CTRL (tx_ctrl_read env),
      RegWrite REG_TX_CTRL (tx_ctrl_read env OR CTRL_TX_ENABLE)]"
  by (simp add: enable_paths_def Let_def write_reg_def read_reg_def emit_def)

lemma owns_enable_paths:
  assumes "owns_resources s"
  shows "owns_resources (enable_paths env s)"
proof -
  have "owns_resources (s\<lparr>trace := trace (enable_paths env s)\<rparr>)"
    by (rule owns_other_trace [OF assms])
      (simp_all add: trace_enable_paths resources_append)
  then show ?thesis using enable_paths_frame [of env s] by simp
qed

lemma map_bar0_pointers:
  "rx_ring (snd (map_bar0 env s)) = rx_ring s" "tx_ring (snd (map_bar0 env s)) = tx_ring s"
  "rx_buffers (snd (map_bar0 env s)) = rx_buffers s"
  "tx_buffers (snd (map_bar0 env s)) = tx_buffers s"
  by (simp_all add: map_bar0_def Let_def emit_def)

lemma reset_device_pointers:
  "rx_ring (snd (reset_device env s)) = rx_ring s" "tx_ring (snd (reset_device env s)) = tx_ring s"
  "rx_buffers (snd (reset_device env s)) = rx_buffers s"
  "tx_buffers (snd (reset_device env s)) = tx_buffers s"
  by (subst reset_device_frame, simp)+

lemma snd_initialize:
  "snd (initialize RXN TXN env s) =
     (let m = map_bar0 env s; r = reset_device env (snd m);
          a = allocate_rings RXN TXN env (snd r)
      in if \<not> fst m then snd m
         else if \<not> fst r then snd r
         else if \<not> fst a then snd a
         else (enable_paths env (configure_rings RXN TXN (snd a)))\<lparr>initialized := True\<rparr>)"
  by (simp add: initialize_def Let_def case_prod_beta split: bool.splits)

lemma owns_initialize:
  assumes "mmap_result env \<noteq> 0"
  shows "owns_resources (snd (initialize RXN TXN env (ARM64NICDriver m rxm txm)))"
proof -
  let ?c = "ARM64NICDriver m rxm txm"
  let ?s1 = "snd (map_bar0 env ?c)"
  let ?s2 = "snd (reset_device env ?s1)"
  let ?s3 = "snd (allocate_rings RXN TXN env ?s2)"
  have c0: "bar0_base ?c = 0" "rx_ring ?c = 0" "tx_ring ?c = 0" "rx_buffers ?c = 0"
    "tx_buffers ?c = 0"
    by (simp_all add: ARM64NICDriver_def)
  have o1: "owns_resources ?s1"
    by (rule owns_map_bar0 [OF owns_constructed c0(1) assms])
  have o2: "owns_resources ?s2" by (rule owns_reset_device [OF o1])
  have p2: "rx_ring ?s2 = 0" "tx_ring ?s2 = 0" "rx_buffers ?s2 = 0" "tx_buffers ?s2 = 0"
    by (simp_all add: reset_device_pointers map_bar0_pointers c0)
  have o3: "owns_resources ?s3" by (rule owns_allocate_rings [OF o2 p2])
  have "owns_resources (enable_paths env (configure_rings RXN TXN ?s3))"
    by (intro owns_enable_paths owns_configure_rings o3)
  then have o4: "owns_resources ((enable_paths env (configure_rings RXN TXN ?s3))
      \<lparr>initialized := True\<rparr>)"
    by (simp add: owns_resources_def)
  show ?thesis
    using o1 o2 o3 o4 by (simp add: snd_initialize Let_def)
qed

lemma and_then_simps [simp]:
  "and_then (Inr x) f = f x"
  "and_then (Inl e) f = Inl e"
  by (simp_all add: and_then_def)

lemma heap_after_append: "heap_after h (t @ u) = heap_after (heap_after h t) u"
  by (induction h t rule: heap_after.induct) simp_all

lemma windows_after_append: "windows_after w (t @ u) = windows_after (windows_after w t) u"
  by (induction w t rule: windows_after.induct) simp_all

lemma heap_after_no_frees: "frees_of t = [] \<Longrightarrow> heap_after h t = h @ allocs_of t"
  by (induction h t rule: heap_after.induct) simp_all

lemma windows_after_no_munmaps:
  "munmaps_of t = [] \<Longrightarrow> windows_after w t = w @ map fst (mmaps_of t)"
  by (induction w t rule: windows_after.induct) simp_all

lemma live_blocks_snoc [simp]:
  "live_blocks (tr @ [Free p]) = remove1 p (live_blocks tr)"
  "live_blocks (tr @ [Alloc p]) = live_blocks tr @ [p]"
  "live_blocks (tr @ [Munmap q n]) = live_blocks tr"
  "live_blocks (tr @ [Mmap q n]) = live_blocks tr"
  "live_blocks (tr @ [RegWrite r v]) = live_blocks tr"
  "live_blocks (tr @ [RegRead r v]) = live_blocks tr"
  by (simp_all add: live_blocks_def heap_after_append)

lemma mapped_windows_snoc [simp]:
  "mapped_windows (tr @ [Munmap q n]) = remove1 q (mapped_windows tr)"
  "mapped_windows (tr @ [Mmap q n]) = mapped_windows tr @ [q]"
  "mapped_windows (tr @ [Free p]) = mapped_windows tr"
  "mapped_windows (tr @ [Alloc p]) = mapped_windows tr"
  "mapped_windows (tr @ [RegWrite r v]) = mapped_windows tr"
  "mapped_windows (tr @ [RegRead r v]) = mapped_windows tr"
  by (simp_all add: mapped_windows_def windows_after_append)

text \<open>While nothing has been released, what the process holds is what it acquired.\<close>

lemma held_by_owner:
  assumes "owns_resources s"
  shows "live_blocks (trace s) =
      filter (\<lambda>p. p \<noteq> 0) [rx_ring s, tx_ring s, rx_buffers s, tx_buffers s]"
    and "mapped_windows (trace s) =
      (if bar0_base s \<noteq> 0 \<and> bar0_base s \<noteq> MAP_FAILED then [bar0_base s] else [])"
  using assms
  by (simp_all add: owns_resources_def live_blocks_def mapped_windows_def
      heap_after_no_frees windows_after_no_munmaps)

text \<open>One guarded \<open>free\<close> of \<open>cleanup\<close>, when the heap holds the block first.\<close>

lemma guarded_free:
  assumes "live_blocks (trace s) = (if p \<noteq> 0 then [p] else []) @ rest"
  shows "(if p \<noteq> 0 then free p s else Inr s) =
      Inr (s\<lparr>trace := trace s @ (if p \<noteq> 0 then [Free p] else [])\<rparr>)"
    and "live_blocks (trace (s\<lparr>trace := trace s @ (if p \<noteq> 0 then [Free p] else [])\<rparr>))
      = rest"
  using assms by (simp_all add: free_def emit_def)

lemma filter_nonnull:
  "filter (\<lambda>p. p \<noteq> 0) [a, b, c, d] =
     (if a \<noteq> 0 then [a] else []) @ (if b \<noteq> 0 then [b] else []) @
     (if c \<noteq> 0 then [c] else []) @ (if d \<noteq> (0 :: 64 word) then [d] else [])"
  by simp

lemma resources_of_if:
  "frees_of (if c then xs else []) = (if c then frees_of xs else [])"
  "allocs_of (if c then xs else []) = (if c then allocs_of xs else [])"
  "mmaps_of (if c then xs else []) = (if c then mmaps_of xs else [])"
  "munmaps_of (if c then xs else []) = (if c then munmaps_of xs else [])"
  "writes_of r (if c then xs else []) = (if c then writes_of r xs else [])"
  by simp_all

lemma held_after_frees:
  "mapped_windows (tr @ (if c then [Free p] else [])) = mapped_windows tr"
  by simp

text \<open>
  \<open>cleanup\<close> on a state whose non-null ring and buffer pointers are the blocks that the
  heap holds and which, if it is initialized, has its register window mapped: every
  step returns, and the effects are the two stores, the \<open>munmap\<close> and the four
  \<open>free\<close> calls that the guards let through. Afterwards the heap holds no block, and
  the regions still mapped are those that were mapped before, less the register window.
\<close>

lemma cleanup_returns:
  assumes live: "live_blocks (trace s) =
      filter (\<lambda>p. p \<noteq> 0) [rx_ring s, tx_ring s, rx_buffers s, tx_buffers s]"
    and w: "initialized s \<longrightarrow> bar0_base s \<in> set (mapped_windows (trace s))"
  shows "cleanup s = Inr (s\<lparr>trace := trace s @
     (if initialized s then [RegWrite REG_RX_CTRL 0, RegWrite REG_TX_CTRL 0] else []) @
     (if bar0_base s \<noteq> 0 \<and> bar0_base s \<noteq> MAP_FAILED
      then [Munmap (bar0_base s) (bar0_size s)] else []) @
     (if rx_ring s \<noteq> 0 then [Free (rx_ring s)] else []) @
     (if tx_ring s \<noteq> 0 then [Free (tx_ring s)] else []) @
     (if rx_buffers s \<noteq> 0 then [Free (rx_buffers s)] else []) @
     (if tx_buffers s \<noteq> 0 then [Free (tx_buffers s)] else [])\<rparr>)"
    and "live_blocks (trace s @
     (if initialized s then [RegWrite REG_RX_CTRL 0, RegWrite REG_TX_CTRL 0] else []) @
     (if bar0_base s \<noteq> 0 \<and> bar0_base s \<noteq> MAP_FAILED
      then [Munmap (bar0_base s) (bar0_size s)] else []) @
     (if rx_ring s \<noteq> 0 then [Free (rx_ring s)] else []) @
     (if tx_ring s \<noteq> 0 then [Free (tx_ring s)] else []) @
     (if rx_buffers s \<noteq> 0 then [Free (rx_buffers s)] else []) @
     (if tx_buffers s \<noteq> 0 then [Free (tx_buffers s)] else [])) = []"
    and "mapped_windows (trace s @
     (if initialized s then [RegWrite REG_RX_CTRL 0, RegWrite REG_TX_CTRL 0] else []) @
     (if bar0_base s \<noteq> 0 \<and> bar0_base s \<noteq> MAP_FAILED
      then [Munmap (bar0_base s) (bar0_size s)] else []) @
     (if rx_ring s \<noteq> 0 then [Free (rx_ring s)] else []) @
     (if tx_ring s \<noteq> 0 then [Free (tx_ring s)] else []) @
     (if rx_buffers s \<noteq> 0 then [Free (rx_buffers s)] else []) @
     (if tx_buffers s \<noteq> 0 then [Free (tx_buffers s)] else [])) =
     (if bar0_base s \<noteq> 0 \<and> bar0_base s \<noteq> MAP_FAILED
      then remove1 (bar0_base s) (mapped_windows (trace s)) else mapped_windows (trace s))"
proof -
  define A where "A = (if initialized s
      then [RegWrite REG_RX_CTRL 0, RegWrite REG_TX_CTRL 0] else [])"
  define B where "B = (if bar0_base s \<noteq> 0 \<and> bar0_base s \<noteq> MAP_FAILED
      then [Munmap (bar0_base s) (bar0_size s)] else [])"
  define F1 where "F1 = (if rx_ring s \<noteq> 0 then [Free (rx_ring s)] else [])"
  define F2 where "F2 = (if tx_ring s \<noteq> 0 then [Free (tx_ring s)] else [])"
  define F3 where "F3 = (if rx_buffers s \<noteq> 0 then [Free (rx_buffers s)] else [])"
  define F4 where "F4 = (if tx_buffers s \<noteq> 0 then [Free (tx_buffers s)] else [])"
  define s1 where "s1 = s\<lparr>trace := trace s @ A\<rparr>"
  define s2 where "s2 = s\<lparr>trace := trace s @ A @ B\<rparr>"
  define s3 where "s3 = s\<lparr>trace := trace s @ A @ B @ F1\<rparr>"
  define s4 where "s4 = s\<lparr>trace := trace s @ A @ B @ F1 @ F2\<rparr>"
  define s5 where "s5 = s\<lparr>trace := trace s @ A @ B @ F1 @ F2 @ F3\<rparr>"
  define s6 where "s6 = s\<lparr>trace := trace s @ A @ B @ F1 @ F2 @ F3 @ F4\<rparr>"
  have e1: "(if initialized s
      then and_then (write_reg_mapped REG_RX_CTRL 0 s) (write_reg_mapped REG_TX_CTRL 0)
      else Inr s) = Inr s1"
    using w by (simp add: s1_def A_def write_reg_mapped_def write_reg_def emit_def)
  have e2: "(if bar0_base s1 \<noteq> 0 \<and> bar0_base s1 \<noteq> MAP_FAILED
      then munmap (bar0_base s1) (bar0_size s1) s1 else s1) = s2"
    by (simp add: s1_def s2_def B_def munmap_def emit_def)
  have p: "rx_ring s2 = rx_ring s" "tx_ring s3 = tx_ring s" "rx_buffers s4 = rx_buffers s"
    "tx_buffers s5 = tx_buffers s"
    by (simp_all add: s2_def s3_def s4_def s5_def)
  have n: "s3 = s2\<lparr>trace := trace s2 @ F1\<rparr>" "s4 = s3\<lparr>trace := trace s3 @ F2\<rparr>"
    "s5 = s4\<lparr>trace := trace s4 @ F3\<rparr>" "s6 = s5\<lparr>trace := trace s5 @ F4\<rparr>"
    by (simp_all add: s2_def s3_def s4_def s5_def s6_def)
  have l2: "live_blocks (trace s2) =
      (if rx_ring s \<noteq> 0 then [rx_ring s] else []) @
      ((if tx_ring s \<noteq> 0 then [tx_ring s] else []) @
       ((if rx_buffers s \<noteq> 0 then [rx_buffers s] else []) @
        ((if tx_buffers s \<noteq> 0 then [tx_buffers s] else []) @ [])))"
  proof -
    have "live_blocks (trace s @ A @ B) = live_blocks (trace s)"
      by (simp add: A_def B_def live_blocks_def heap_after_append)
    then have "live_blocks (trace s2) = live_blocks (trace s)"
      by (simp add: s2_def)
    then show ?thesis
      unfolding live filter_nonnull by (simp only: append_Nil2)
  qed
  have e3: "(if rx_ring s2 \<noteq> 0 then free (rx_ring s2) s2 else Inr s2) = Inr s3"
    unfolding p n F1_def by (rule guarded_free(1) [OF l2])
  have l3: "live_blocks (trace s3) =
      (if tx_ring s \<noteq> 0 then [tx_ring s] else []) @
      ((if rx_buffers s \<noteq> 0 then [rx_buffers s] else []) @
       ((if tx_buffers s \<noteq> 0 then [tx_buffers s] else []) @ []))"
    unfolding n(1) F1_def by (rule guarded_free(2) [OF l2])
  have e4: "(if tx_ring s3 \<noteq> 0 then free (tx_ring s3) s3 else Inr s3) = Inr s4"
    unfolding p n(2) F2_def by (rule guarded_free(1) [OF l3])
  have l4: "live_blocks (trace s4) =
      (if rx_buffers s \<noteq> 0 then [rx_buffers s] else []) @
      ((if tx_buffers s \<noteq> 0 then [tx_buffers s] else []) @ [])"
    unfolding n(2) F2_def by (rule guarded_free(2) [OF l3])
  have e5: "(if rx_buffers s4 \<noteq> 0 then free (rx_buffers s4) s4 else Inr s4) = Inr s5"
    unfolding p n(3) F3_def by (rule guarded_free(1) [OF l4])
  have l5: "live_blocks (trace s5) =
      (if tx_buffers s \<noteq> 0 then [tx_buffers s] else []) @ []"
    unfolding n(3) F3_def by (rule guarded_free(2) [OF l4])
  have e6: "(if tx_buffers s5 \<noteq> 0 then free (tx_buffers s5) s5 else Inr s5) = Inr s6"
    unfolding p n(4) F4_def by (rule guarded_free(1) [OF l5])
  have l6: "live_blocks (trace s6) = []"
    unfolding n(4) F4_def by (rule guarded_free(2) [OF l5])
  have "cleanup s = Inr s6"
    unfolding cleanup_def e1 and_then_simps Let_def e2 e3 e4 e5 e6 ..
  then show "cleanup s = Inr (s\<lparr>trace := trace s @
     (if initialized s then [RegWrite REG_RX_CTRL 0, RegWrite REG_TX_CTRL 0] else []) @
     (if bar0_base s \<noteq> 0 \<and> bar0_base s \<noteq> MAP_FAILED
      then [Munmap (bar0_base s) (bar0_size s)] else []) @
     (if rx_ring s \<noteq> 0 then [Free (rx_ring s)] else []) @
     (if tx_ring s \<noteq> 0 then [Free (tx_ring s)] else []) @
     (if rx_buffers s \<noteq> 0 then [Free (rx_buffers s)] else []) @
     (if tx_buffers s \<noteq> 0 then [Free (tx_buffers s)] else [])\<rparr>)"
    by (simp only: s6_def A_def B_def F1_def F2_def F3_def F4_def)
  have "live_blocks (trace s @ A @ B @ F1 @ F2 @ F3 @ F4) = []"
    using l6 by (simp add: s6_def)
  then show "live_blocks (trace s @
     (if initialized s then [RegWrite REG_RX_CTRL 0, RegWrite REG_TX_CTRL 0] else []) @
     (if bar0_base s \<noteq> 0 \<and> bar0_base s \<noteq> MAP_FAILED
      then [Munmap (bar0_base s) (bar0_size s)] else []) @
     (if rx_ring s \<noteq> 0 then [Free (rx_ring s)] else []) @
     (if tx_ring s \<noteq> 0 then [Free (tx_ring s)] else []) @
     (if rx_buffers s \<noteq> 0 then [Free (rx_buffers s)] else []) @
     (if tx_buffers s \<noteq> 0 then [Free (tx_buffers s)] else [])) = []"
    by (simp only: A_def B_def F1_def F2_def F3_def F4_def)
  have "mapped_windows (trace s @ A @ B) =
     (if bar0_base s \<noteq> 0 \<and> bar0_base s \<noteq> MAP_FAILED
      then remove1 (bar0_base s) (mapped_windows (trace s)) else mapped_windows (trace s))"
    by (simp add: A_def B_def mapped_windows_def windows_after_append)
  moreover have "mapped_windows (((((trace s @ A @ B) @ F1) @ F2) @ F3) @ F4) =
      mapped_windows (trace s @ A @ B)"
    unfolding F1_def F2_def F3_def F4_def held_after_frees ..
  ultimately have "mapped_windows (trace s @ A @ B @ F1 @ F2 @ F3 @ F4) =
     (if bar0_base s \<noteq> 0 \<and> bar0_base s \<noteq> MAP_FAILED
      then remove1 (bar0_base s) (mapped_windows (trace s)) else mapped_windows (trace s))"
    by (simp only: append_assoc)
  then show "mapped_windows (trace s @
     (if initialized s then [RegWrite REG_RX_CTRL 0, RegWrite REG_TX_CTRL 0] else []) @
     (if bar0_base s \<noteq> 0 \<and> bar0_base s \<noteq> MAP_FAILED
      then [Munmap (bar0_base s) (bar0_size s)] else []) @
     (if rx_ring s \<noteq> 0 then [Free (rx_ring s)] else []) @
     (if tx_ring s \<noteq> 0 then [Free (tx_ring s)] else []) @
     (if rx_buffers s \<noteq> 0 then [Free (rx_buffers s)] else []) @
     (if tx_buffers s \<noteq> 0 then [Free (tx_buffers s)] else [])) =
     (if bar0_base s \<noteq> 0 \<and> bar0_base s \<noteq> MAP_FAILED
      then remove1 (bar0_base s) (mapped_windows (trace s)) else mapped_windows (trace s))"
    by (simp only: A_def B_def F1_def F2_def F3_def F4_def)
qed

text \<open>A second \<open>cleanup\<close> meets the pointers and the flag that the first one left.\<close>

lemma cleanup_store_faults:
  assumes "initialized s" and "bar0_base s \<notin> set (mapped_windows (trace s))"
  shows "cleanup s = Inl SegmentationFault"
  using assms by (simp add: cleanup_def write_reg_mapped_def)

lemma cleanup_free_faults:
  assumes "\<not> initialized s" and "rx_ring s \<noteq> 0"
    and "rx_ring s \<notin> set (live_blocks (trace s))"
  shows "cleanup s = Inl InvalidFree"
  using assms by (simp add: cleanup_def Let_def munmap_def emit_def free_def)

text \<open>
  \<open>cleanup\<close> on a state that accounts for its resources returns; what it releases is
  what the state has acquired, and nothing stays held.
\<close>

lemma cleanup_owned:
  assumes o: "owns_resources s"
    and w: "initialized s \<longrightarrow> bar0_base s \<noteq> 0 \<and> bar0_base s \<noteq> MAP_FAILED"
  shows "\<exists>s'. cleanup s = Inr s' \<and> s' = s\<lparr>trace := trace s'\<rparr> \<and>
     frees_of (trace s') = allocs_of (trace s) \<and>
     munmaps_of (trace s') = mmaps_of (trace s) \<and>
     allocs_of (trace s') = allocs_of (trace s) \<and>
     mmaps_of (trace s') = mmaps_of (trace s) \<and>
     live_blocks (trace s') = [] \<and> mapped_windows (trace s') = [] \<and>
     writes_of REG_RX_CTRL (trace s') =
       writes_of REG_RX_CTRL (trace s) @ (if initialized s then [0] else []) \<and>
     writes_of REG_TX_CTRL (trace s') =
       writes_of REG_TX_CTRL (trace s) @ (if initialized s then [0] else [])"
proof -
  define T where "T =
     (if initialized s then [RegWrite REG_RX_CTRL 0, RegWrite REG_TX_CTRL 0] else []) @
     (if bar0_base s \<noteq> 0 \<and> bar0_base s \<noteq> MAP_FAILED
      then [Munmap (bar0_base s) (bar0_size s)] else []) @
     (if rx_ring s \<noteq> 0 then [Free (rx_ring s)] else []) @
     (if tx_ring s \<noteq> 0 then [Free (tx_ring s)] else []) @
     (if rx_buffers s \<noteq> 0 then [Free (rx_buffers s)] else []) @
     (if tx_buffers s \<noteq> 0 then [Free (tx_buffers s)] else [])"
  note held = held_by_owner [OF o]
  from o have own: "allocs_of (trace s) =
       filter (\<lambda>p. p \<noteq> 0) [rx_ring s, tx_ring s, rx_buffers s, tx_buffers s]"
    "mmaps_of (trace s) =
       (if bar0_base s \<noteq> 0 \<and> bar0_base s \<noteq> MAP_FAILED
        then [(bar0_base s, bar0_size s)] else [])"
    "frees_of (trace s) = []" "munmaps_of (trace s) = []"
    by (simp_all add: owns_resources_def)
  have w': "initialized s \<longrightarrow> bar0_base s \<in> set (mapped_windows (trace s))"
    using w by (simp add: held(2))
  note c = cleanup_returns [OF held(1) w', folded T_def]
  have 1: "cleanup s = Inr (s\<lparr>trace := trace s @ T\<rparr>)" by (rule c(1))
  have 2: "frees_of (trace s @ T) = allocs_of (trace s)"
    unfolding T_def resources_append resources_of_if own filter_nonnull
    by (simp split del: if_split cong: if_cong)
  have 3: "munmaps_of (trace s @ T) = mmaps_of (trace s)"
    unfolding T_def resources_append resources_of_if own
    by (simp split del: if_split cong: if_cong)
  have 4: "allocs_of (trace s @ T) = allocs_of (trace s)"
    "mmaps_of (trace s @ T) = mmaps_of (trace s)"
    unfolding T_def resources_append resources_of_if
    by (simp_all split del: if_split cong: if_cong)
  have 5: "live_blocks (trace s @ T) = []" by (rule c(2))
  have 6: "mapped_windows (trace s @ T) = []"
    unfolding c(3) held(2) by simp
  have 7: "writes_of REG_RX_CTRL (trace s @ T) =
       writes_of REG_RX_CTRL (trace s) @ (if initialized s then [0] else [])"
    "writes_of REG_TX_CTRL (trace s @ T) =
       writes_of REG_TX_CTRL (trace s) @ (if initialized s then [0] else [])"
    unfolding T_def writes_of_append resources_of_if
    by (simp_all add: REG_RX_CTRL_def REG_TX_CTRL_def split del: if_split cong: if_cong)
  show ?thesis
    by (rule exI [where x = "s\<lparr>trace := trace s @ T\<rparr>"]) (simp add: 1 2 3 4 5 6 7)
qed

text \<open>What \<open>initialize\<close> acquires, from any state.\<close>

lemma fst_initialize:
  "fst (initialize RXN TXN env s) =
     (let m = map_bar0 env s; r = reset_device env (snd m);
          a = allocate_rings RXN TXN env (snd r)
      in if \<not> fst m then MapError
         else if \<not> fst r then ResetTimeoutError
         else if \<not> fst a then AllocationError
         else InitOk)"
  by (simp add: initialize_def Let_def case_prod_beta split: bool.splits)

lemma initialized_initialize:
  "initialized (snd (initialize RXN TXN env s)) \<longleftrightarrow>
     initialized s \<or> fst (initialize RXN TXN env s) = InitOk"
proof -
  have a: "initialized (snd (map_bar0 env s')) = initialized s'" for s'
    by (simp add: map_bar0_def Let_def emit_def)
  have b: "initialized (snd (reset_device env s')) = initialized s'" for s'
    by (subst reset_device_frame) simp
  have c: "initialized (snd (allocate_rings RXN TXN env s')) = initialized s'" for s'
    by (simp add: allocate_rings_def Let_def aligned_alloc_def emit_def)
  show ?thesis
    by (simp add: snd_initialize fst_initialize Let_def a b c)
qed

lemma initialize_ok_window:
  assumes "fst (initialize RXN TXN env s) = InitOk"
  shows "mmap_result env \<noteq> MAP_FAILED"
proof -
  from assms have "fst (map_bar0 env s)"
    by (simp add: fst_initialize Let_def split: if_splits)
  then show ?thesis
    by (simp add: map_bar0_def Let_def emit_def split: if_splits)
qed

lemma trace_map_bar0:
  "trace (snd (map_bar0 env s)) = trace s @
     (if fst (map_bar0 env s) then [Mmap (mmap_result env) (lseek_end env)] else [])"
  by (simp add: map_bar0_def Let_def emit_def)

lemma resources_reset_device:
  "allocs_of (trace (snd (reset_device env s))) = allocs_of (trace s)"
  "frees_of (trace (snd (reset_device env s))) = frees_of (trace s)"
  "mmaps_of (trace (snd (reset_device env s))) = mmaps_of (trace s)"
  "munmaps_of (trace (snd (reset_device env s))) = munmaps_of (trace s)"
proof -
  obtain k where eq: "snd (reset_wait env 0 (write_reg REG_CTRL CTRL_RESET s)) =
       (write_reg REG_CTRL CTRL_RESET s)\<lparr>trace := trace (write_reg REG_CTRL CTRL_RESET s)
          @ map (\<lambda>j. RegRead REG_CTRL (ctrl_reads env j)) [0..<0 + k]\<rparr>"
    using reset_wait_trace [of 0 env "write_reg REG_CTRL CTRL_RESET s"] by blast
  show "allocs_of (trace (snd (reset_device env s))) = allocs_of (trace s)"
    "frees_of (trace (snd (reset_device env s))) = frees_of (trace s)"
    "mmaps_of (trace (snd (reset_device env s))) = mmaps_of (trace s)"
    "munmaps_of (trace (snd (reset_device env s))) = munmaps_of (trace s)"
    unfolding reset_device_def eq
    by (simp_all add: write_reg_def emit_def resources_append)
qed

lemma resources_initialize_ok:
  assumes "fst (initialize RXN TXN env s) = InitOk"
  shows "allocs_of (trace (snd (initialize RXN TXN env s))) = allocs_of (trace s) @
      [alloc_rx_ring env, alloc_tx_ring env, alloc_rx_buffers env, alloc_tx_buffers env]"
    and "mmaps_of (trace (snd (initialize RXN TXN env s))) = mmaps_of (trace s) @
      [(mmap_result env, lseek_end env)]"
    and "frees_of (trace (snd (initialize RXN TXN env s))) = frees_of (trace s)"
    and "munmaps_of (trace (snd (initialize RXN TXN env s))) = munmaps_of (trace s)"
proof -
  let ?s1 = "snd (map_bar0 env s)"
  let ?s2 = "snd (reset_device env ?s1)"
  let ?s3 = "snd (allocate_rings RXN TXN env ?s2)"
  from assms have f: "fst (map_bar0 env s)" "fst (reset_device env ?s1)"
    "fst (allocate_rings RXN TXN env ?s2)"
    by (simp_all add: fst_initialize Let_def split: if_splits)
  from f(3) have nz: "alloc_rx_ring env \<noteq> 0" "alloc_tx_ring env \<noteq> 0"
    "alloc_rx_buffers env \<noteq> 0" "alloc_tx_buffers env \<noteq> 0"
    by (simp_all add: allocate_rings_def Let_def aligned_alloc_def emit_def split: if_splits)
  have e: "snd (initialize RXN TXN env s) =
      (enable_paths env (configure_rings RXN TXN ?s3))\<lparr>initialized := True\<rparr>"
    using f by (simp add: snd_initialize Let_def)
  have t: "trace (snd (initialize RXN TXN env s)) =
      trace ?s3 @ drop (length (trace ?s3)) (trace (snd (initialize RXN TXN env s)))"
    "allocs_of (drop (length (trace ?s3)) (trace (snd (initialize RXN TXN env s)))) = []"
    "frees_of (drop (length (trace ?s3)) (trace (snd (initialize RXN TXN env s)))) = []"
    "mmaps_of (drop (length (trace ?s3)) (trace (snd (initialize RXN TXN env s)))) = []"
    "munmaps_of (drop (length (trace ?s3)) (trace (snd (initialize RXN TXN env s)))) = []"
    unfolding e by (simp_all add: trace_enable_paths trace_configure_rings)
  have r3: "allocs_of (trace ?s3) = allocs_of (trace s) @
      [alloc_rx_ring env, alloc_tx_ring env, alloc_rx_buffers env, alloc_tx_buffers env]"
    "mmaps_of (trace ?s3) = mmaps_of (trace s) @ [(mmap_result env, lseek_end env)]"
    "frees_of (trace ?s3) = frees_of (trace s)"
    "munmaps_of (trace ?s3) = munmaps_of (trace s)"
    using f(1) nz
    by (simp_all add: allocate_rings_trace resources_append resources_reset_device
        trace_map_bar0)
  show "allocs_of (trace (snd (initialize RXN TXN env s))) = allocs_of (trace s) @
      [alloc_rx_ring env, alloc_tx_ring env, alloc_rx_buffers env, alloc_tx_buffers env]"
    by (subst t(1)) (simp only: allocs_of_append t(2) r3 append_Nil2)
  show "mmaps_of (trace (snd (initialize RXN TXN env s))) = mmaps_of (trace s) @
      [(mmap_result env, lseek_end env)]"
    by (subst t(1)) (simp only: mmaps_of_append t(4) r3 append_Nil2)
  show "frees_of (trace (snd (initialize RXN TXN env s))) = frees_of (trace s)"
    by (subst t(1)) (simp only: frees_of_append t(3) r3 append_Nil2)
  show "munmaps_of (trace (snd (initialize RXN TXN env s))) = munmaps_of (trace s)"
    by (subst t(1)) (simp only: munmaps_of_append t(5) r3 append_Nil2)
qed

lemma initialize_env_partial: "fst (initialize RXN TXN env_partial s) = AllocationError"
proof -
  have m: "fst (map_bar0 env_partial s)"
    by (simp add: map_bar0_def Let_def emit_def env_partial_def env_ok_def MAP_FAILED_def)
  have "ctrl_reads env_partial 0 AND CTRL_RESET = 0"
    by (simp add: env_partial_def env_ok_def)
  then have r: "fst (reset_device env_partial (snd (map_bar0 env_partial s)))"
    unfolding reset_device_def by (intro reset_wait_clears [where j = 0]) simp_all
  have a: "\<not> fst (allocate_rings RXN TXN env_partial
      (snd (reset_device env_partial (snd (map_bar0 env_partial s)))))"
    by (simp add: allocate_rings_def Let_def aligned_alloc_def emit_def env_partial_def env_ok_def)
  show ?thesis
    using m r a by (simp add: initialize_def Let_def case_prod_beta)
qed

section \<open>Sending below capacity\<close>

text \<open>
  Claim C2. On a ring of \<open>2 ^ k\<close> slots, after a successful \<open>initialize\<close> of a newly
  constructed driver and with no hardware completion in between, every one of \<open>N\<close>
  consecutive calls of \<open>send_packet\<close> returns \<open>true\<close> when \<open>N\<close> is strictly below the
  ring size, whatever the packets are, and the sent-packet counter then reads exactly
  \<open>N\<close>. The ring of the source has \<open>2 ^ 11\<close> slots.
\<close>

theorem sends_below_capacity_succeed:
  assumes "k < 32"
    and "fst (initialize RXN (2 ^ k) env (ARM64NICDriver m rxm txm)) = InitOk"
    and "length ps < 2 ^ k"
  shows "\<exists>s'. send_all (2 ^ k) (snd (initialize RXN (2 ^ k) env (ARM64NICDriver m rxm txm))) ps
            = Some (replicate (length ps) True, s') \<and>
          unat (packets_sent s') = length ps"
proof -
  let ?s0 = "snd (initialize RXN (2 ^ k) env (ARM64NICDriver m rxm txm))"
  from initialize_ok_frame [OF assms(2)] obtain rm t where
    s0: "?s0 = (ARM64NICDriver m rxm txm)
      \<lparr>bar0_size := lseek_end env, bar0_base := mmap_result env,
        rx_ring := alloc_rx_ring env, rx_ring_mem := rm,
        tx_ring := alloc_tx_ring env,
        tx_ring_mem := (\<lambda>i. if i < 2 ^ k then zero_tx_desc
                             else tx_ring_mem (ARM64NICDriver m rxm txm) i),
        rx_buffers := alloc_rx_buffers env, tx_buffers := alloc_tx_buffers env,
        trace := t, initialized := True\<rparr>"
    by blast
  have fresh: "tx_head ?s0 = 0" "tx_tail ?s0 = 0" "packets_sent ?s0 = 0"
    unfolding s0 by (simp_all add: ARM64NICDriver_def)
  have "unat (tx_tail ?s0) + length ps < 2 ^ k"
    using assms(3) fresh(2) by simp
  from send_all_in_order [OF assms(1) fresh(1) this] obtain s' where
    run: "send_all (2 ^ k) ?s0 ps = Some (replicate (length ps) True, s')"
    and cnt: "packets_sent s' = packets_sent ?s0 + of_nat (length ps)"
    by blast
  have "(2::nat) ^ k < 2 ^ 64" using assms(1) by (intro power_strict_increasing) simp_all
  then have "length ps < 2 ^ 64" using assms(3) by simp
  then have "unat (of_nat (length ps) :: 64 word) = length ps"
    by (simp add: unat_of_nat)
  then have "unat (packets_sent s') = length ps"
    using cnt fresh(3) by simp
  with run show ?thesis by blast
qed

theorem sends_below_capacity_succeed_witness:
  "\<exists>s'. send_all 8 (snd (initialize 8 8 env_ok new_driver))
      [(0x1000, 64), (0x1000, 64), (0x1000, 64), (0x1000, 64), (0x1000, 64), (0x1000, 64),
       (0x2000, 1500)]
     = Some ([True, True, True, True, True, True, True], s') \<and> unat (packets_sent s') = 7"
proof -
  have "fst (initialize 8 (2 ^ 3) env_ok (ARM64NICDriver (\<lambda>_. 0) (\<lambda>_. zero_rx_desc)
      (\<lambda>_. zero_tx_desc))) = InitOk"
    by (rule initialize_env_ok)
  from sends_below_capacity_succeed [of 3 8 env_ok "\<lambda>_. 0" "\<lambda>_. zero_rx_desc"
      "\<lambda>_. zero_tx_desc"
      "[(0x1000, 64), (0x1000, 64), (0x1000, 64), (0x1000, 64), (0x1000, 64), (0x1000, 64),
       (0x2000, 1500)]", OF _ this]
  show ?thesis by (simp add: new_driver_def numeral_eq_Suc)
qed

section \<open>Backpressure on a full ring\<close>

text \<open>The cursors of a ring of \<open>2 ^ k\<close> slots stay in range: whatever \<open>send_packet\<close>
  returns, both TX cursors of the state it leaves are below the ring size.\<close>

lemma send_packet_cursors_in_range:
  assumes k: "k < 32" and h: "tx_head s < 2 ^ k" and t: "tx_tail s < 2 ^ k"
    and run: "send_packet (2 ^ k) s data len = Some (ok, s')"
  shows "tx_head s' < 2 ^ k \<and> tx_tail s' < 2 ^ k"
proof -
  have hu: "unat (tx_head s) < 2 ^ k" using h k by (simp add: ring_lt_iff)
  from send_packet_cases [OF k h t, of data len] obtain n where
    send: "send_packet (2 ^ k) s data len =
        (if ring_next (2 ^ k) (tx_tail s) \<noteq> tx_head s
         then Some (True, send_packet_body s (ring_next (2 ^ k) (tx_tail s)) data len)
         else if n = 0 then Some (False, s)
         else Some (True, send_packet_body
                 (s\<lparr>tx_head := (ring_next (2 ^ k) ^^ n) (tx_head s)\<rparr>)
                 (ring_next (2 ^ k) (tx_tail s)) data len))"
    by blast
  have a: "ring_next (2 ^ k) (tx_tail s) < 2 ^ k"
    using k by (simp add: ring_lt_iff ring_next_lt)
  have "unat ((ring_next (2 ^ k) ^^ n) (tx_head s)) < 2 ^ k"
    using unat_ring_next_funpow [OF k hu, of n] by simp
  then have b: "(ring_next (2 ^ k) ^^ n) (tx_head s) < 2 ^ k"
    using k by (simp add: ring_lt_iff)
  show ?thesis
    using run send a b h t by (auto split: if_splits)
qed

text \<open>
  Claim C4. On a ring of \<open>2 ^ k\<close> slots whose cursors are in range, \<open>send_packet\<close>
  always returns, and what it does is decided by comparing the masked successor of the
  producer cursor with the consumer cursor. If they differ, the packet is queued with no
  reclamation. If they are equal, \<open>reclaim_tx_descriptors\<close> returns with the consumer
  cursor advanced by some \<open>n\<close> slots, where the \<open>n\<close> descriptors passed all lie before
  the producer cursor and all carry the DD flag, and the descriptor it stops at is the
  producer cursor's or carries no DD flag: the longest run of completed descriptors
  starting at the consumer cursor among those outstanding. If that run is empty the ring
  is still full and \<open>send_packet\<close> returns \<open>false\<close> with the whole driver state as it
  was: producer cursor, sent counter, descriptors and buffers. Otherwise the packet is
  queued. There is no third outcome, so no packet is dropped without the caller being
  told.
\<close>

theorem send_packet_backpressure:
  assumes "k < 32" and "tx_head s < 2 ^ k" and "tx_tail s < 2 ^ k"
  shows "\<exists>n<2 ^ k.
      (\<forall>i<n. (ring_next (2 ^ k) ^^ i) (tx_head s) \<noteq> tx_tail s \<and>
         status (tx_ring_mem s ((ring_next (2 ^ k) ^^ i) (tx_head s))) AND DESC_STATUS_DD \<noteq> 0) \<and>
      ((ring_next (2 ^ k) ^^ n) (tx_head s) = tx_tail s \<or>
       status (tx_ring_mem s ((ring_next (2 ^ k) ^^ n) (tx_head s))) AND DESC_STATUS_DD = 0) \<and>
      reclaim_tx_descriptors (2 ^ k) s =
        Some (s\<lparr>tx_head := (ring_next (2 ^ k) ^^ n) (tx_head s)\<rparr>) \<and>
      send_packet (2 ^ k) s data len =
        (if ring_next (2 ^ k) (tx_tail s) \<noteq> tx_head s
         then Some (True, send_packet_body s (ring_next (2 ^ k) (tx_tail s)) data len)
         else if n = 0 then Some (False, s)
         else Some (True, send_packet_body
                 (s\<lparr>tx_head := (ring_next (2 ^ k) ^^ n) (tx_head s)\<rparr>)
                 (ring_next (2 ^ k) (tx_tail s)) data len))"
  using assms by (rule send_packet_cases)

theorem send_packet_backpressure_witness:
  "send_packet 8 ring8_full 0x1000 64 = Some (False, ring8_full)"
proof -
  have h: "(3::nat) < 32" "tx_head ring8_full < 2 ^ 3" "tx_tail ring8_full < 2 ^ 3"
    by (simp_all add: ring8_full_def new_driver_def ARM64NICDriver_def)
  from send_packet_backpressure [where k = 3 and s = ring8_full and data = "0x1000" and len = 64, OF h] obtain n where
    seen: "\<forall>i<n. (ring_next (2 ^ 3) ^^ i) (tx_head ring8_full) \<noteq> tx_tail ring8_full \<and>
         status (tx_ring_mem ring8_full ((ring_next (2 ^ 3) ^^ i) (tx_head ring8_full)))
           AND DESC_STATUS_DD \<noteq> 0"
    and send: "send_packet (2 ^ 3) ring8_full 0x1000 64 =
        (if ring_next (2 ^ 3) (tx_tail ring8_full) \<noteq> tx_head ring8_full
         then Some (True, send_packet_body ring8_full (ring_next (2 ^ 3) (tx_tail ring8_full)) 0x1000 64)
         else if n = 0 then Some (False, ring8_full)
         else Some (True, send_packet_body
                 (ring8_full\<lparr>tx_head := (ring_next (2 ^ 3) ^^ n) (tx_head ring8_full)\<rparr>)
                 (ring_next (2 ^ 3) (tx_tail ring8_full)) 0x1000 64))"
    by blast
  have "n = 0"
  proof (rule ccontr)
    assume "n \<noteq> 0"
    then have "0 < n" by simp
    with seen have "status (tx_ring_mem ring8_full ((ring_next (2 ^ 3) ^^ 0) (tx_head ring8_full)))
           AND DESC_STATUS_DD \<noteq> 0" by blast
    then show False
      by (simp add: ring8_full_def new_driver_def ARM64NICDriver_def zero_tx_desc_def)
  qed
  moreover have "ring_next (2 ^ 3) (tx_tail ring8_full) = tx_head ring8_full"
    by (simp add: ring8_full_def new_driver_def ARM64NICDriver_def ring_next_def)
  ultimately show ?thesis using send by simp
qed

section \<open>The eight-slot scenario\<close>

text \<open>
  Claim C1, as the code has it. On a ring of 8 slots, after a successful \<open>initialize\<close>
  and with no hardware completion, the first 7 calls of \<open>send_packet\<close> return \<open>true\<close> and
  the 8th returns \<open>false\<close>: the ring counts as full when the masked successor of the
  producer cursor equals the consumer cursor, so one slot always stays empty. After every
  prefix of the 7 sends the sent counter equals the number of sends made; it is 7 after
  the refused 8th. Once hardware has set the DD flag of descriptor 0, the next
  \<open>send_packet\<close> returns \<open>true\<close>, the sent counter is 8, the consumer cursor is 1 and the
  producer cursor 0. The packet goes to slot 7, the slot of the producer cursor: its
  descriptor carries the address of the eighth buffer and the length, the copy is made to
  that address, descriptor 0 is not written, and for a length of at most 9216 no byte of
  buffer slot 0 is written. Slot 0 is the one the send after that would fill.
\<close>

theorem ring8_backpressure_scenario:
  assumes "fst (initialize RXN 8 env (ARM64NICDriver m rxm txm)) = InitOk"
    and "length ps = 7"
  shows "\<exists>s7 s9.
      send_all 8 (snd (initialize RXN 8 env (ARM64NICDriver m rxm txm))) (ps @ [(d8, l8)])
        = Some (replicate 7 True @ [False], s7) \<and>
      unat (packets_sent s7) = 7 \<and>
      send_packet 8 (hw_complete_tx 0 s7) d9 l9 = Some (True, s9) \<and>
      unat (packets_sent s9) = 8 \<and> tx_head s9 = 1 \<and> tx_tail s9 = 0 \<and>
      buffer_addr (tx_ring_mem s9 7) = tx_buffers s7 + 7 * 9216 \<and>
      cmd_type_len (tx_ring_mem s9 7) = ucast l9 OR DESC_STATUS_EOP \<and>
      tx_ring_mem s9 0 = tx_ring_mem (hw_complete_tx 0 s7) 0 \<and>
      mem s9 = (if 64 \<le> l9 then neon_memcpy (mem s7) (tx_buffers s7 + 7 * 9216) d9 (unat l9)
                else copy_bytes (mem s7) (tx_buffers s7 + 7 * 9216) d9 (unat l9)) \<and>
      (unat l9 \<le> 9216 \<longrightarrow> (\<forall>a. unat (a - tx_buffers s7) < 9216 \<longrightarrow> mem s9 a = mem s7 a)) \<and>
      (\<forall>j\<le>7. \<exists>sj.
         send_all 8 (snd (initialize RXN 8 env (ARM64NICDriver m rxm txm))) (take j ps)
           = Some (replicate j True, sj) \<and>
         unat (packets_sent sj) = j)"
proof -
  let ?s0 = "snd (initialize RXN 8 env (ARM64NICDriver m rxm txm))"
  note fresh = initialize_fresh [OF assms(1)]
  have pre: "\<forall>j\<le>7. \<exists>sj. send_all 8 ?s0 (take j ps) = Some (replicate j True, sj) \<and>
         unat (packets_sent sj) = j"
  proof (intro allI impI)
    fix j :: nat assume j: "j \<le> 7"
    have k: "(3::nat) < 32" by simp
    have t: "unat (tx_tail ?s0) + length (take j ps) < 2 ^ 3"
      using j assms(2) fresh(2) by simp
    from send_all_in_order [OF k fresh(1) t] obtain sj where
      run: "send_all (2 ^ 3) ?s0 (take j ps) = Some (replicate (length (take j ps)) True, sj)"
      and cnt: "packets_sent sj = packets_sent ?s0 + of_nat (length (take j ps))"
      by blast
    have len: "length (take j ps) = j" using j assms(2) by simp
    have "unat (of_nat j :: 64 word) = j" using j by (simp add: unat_of_nat)
    then have "unat (packets_sent sj) = j" using cnt fresh(3) len by simp
    then show "\<exists>sj. send_all 8 ?s0 (take j ps) = Some (replicate j True, sj) \<and>
         unat (packets_sent sj) = j"
      using run len by (intro exI [of _ sj]) simp
  qed
  from ring8_scenario [OF fresh(1,2,3) assms(2), of d8 l8 d9 l9] pre
  show ?thesis by simp
qed

theorem ring8_backpressure_scenario_witness:
  "\<exists>s7 s9.
      send_all 8 (snd (initialize 8 8 env_ok new_driver))
        [(0x1000, 64), (0x1000, 64), (0x1000, 64), (0x1000, 64),
         (0x1000, 64), (0x1000, 64), (0x1000, 64), (0x3000, 1500)]
        = Some ([True, True, True, True, True, True, True, False], s7) \<and>
      send_packet 8 (hw_complete_tx 0 s7) 0x2000 100 = Some (True, s9) \<and>
      unat (packets_sent s9) = 8 \<and> tx_head s9 = 1 \<and> tx_tail s9 = 0 \<and>
      buffer_addr (tx_ring_mem s9 7) = tx_buffers s7 + 7 * 9216"
proof -
  have ok: "fst (initialize 8 8 env_ok (ARM64NICDriver (\<lambda>_. 0) (\<lambda>_. zero_rx_desc)
      (\<lambda>_. zero_tx_desc))) = InitOk"
    by (rule initialize_env_ok)
  have len: "length (replicate 7 (0x1000 :: 64 word, 64 :: 16 word)) = 7" by simp
  from ring8_backpressure_scenario [OF ok len, of "0x3000" 1500 "0x2000" 100]
  obtain s7 s9 where
    "send_all 8 (snd (initialize 8 8 env_ok (ARM64NICDriver (\<lambda>_. 0) (\<lambda>_. zero_rx_desc)
        (\<lambda>_. zero_tx_desc)))) (replicate 7 (0x1000, 64) @ [(0x3000, 1500)])
        = Some (replicate 7 True @ [False], s7)"
    "send_packet 8 (hw_complete_tx 0 s7) 0x2000 100 = Some (True, s9)"
    "unat (packets_sent s9) = 8" "tx_head s9 = 1" "tx_tail s9 = 0"
    "buffer_addr (tx_ring_mem s9 7) = tx_buffers s7 + 7 * 9216"
    by blast
  then show ?thesis
    by (intro exI [of _ s7] exI [of _ s9]) (simp add: numeral_eq_Suc new_driver_def)
qed

text \<open>The claim as first stated fails at the 8th send: of eight sends on a newly
  initialized eight-slot ring, the last is refused.\<close>

theorem ring8_eighth_send_fails:
  "map_option fst (send_all 8 (snd (initialize 8 8 env_ok new_driver))
      [(0x1000, 64), (0x1000, 64), (0x1000, 64), (0x1000, 64),
       (0x1000, 64), (0x1000, 64), (0x1000, 64), (0x1000, 64)])
   = Some [True, True, True, True, True, True, True, False]"
proof -
  let ?s0 = "snd (initialize 8 8 env_ok new_driver)"
  have ok: "fst (initialize 8 8 env_ok (ARM64NICDriver (\<lambda>_. 0) (\<lambda>_. zero_rx_desc)
      (\<lambda>_. zero_tx_desc))) = InitOk"
    by (rule initialize_env_ok)
  note fresh = initialize_fresh [OF ok, folded new_driver_def]
  have len: "length (replicate 7 (0x1000 :: 64 word, 64 :: 16 word)) = 7" by simp
  from ring8_scenario [OF fresh(1,2,3) len, of "0x1000" 64 "0x1000" 64] obtain s7 where
    "send_all 8 ?s0 (replicate 7 (0x1000, 64) @ [(0x1000, 64)])
       = Some (replicate 7 True @ [False], s7)"
    by blast
  then show ?thesis by (simp add: numeral_eq_Suc)
qed

section \<open>The vector copy against the byte-wise copy\<close>

lemma send_packet_success_mem:
  assumes "send_packet R s data len = Some (True, s')"
  shows "mem s' = (if 64 \<le> len then neon_memcpy (mem s) (tx_slot s) data (unat len)
      else copy_bytes (mem s) (tx_slot s) data (unat len))"
    and "tx_ring_mem s' = (tx_ring_mem s)(tx_tail s := (tx_ring_mem s (tx_tail s))
        \<lparr>buffer_addr := tx_slot s,
         cmd_type_len := ucast len OR DESC_STATUS_EOP, status := 0\<rparr>)"
    and "rx_ring_mem s' = rx_ring_mem s"
    and "packets_sent s' = packets_sent s + 1"
proof -
  from send_packet_success [OF assms] obtain h where
    "s' = send_packet_body (s\<lparr>tx_head := h\<rparr>) ((tx_tail s + 1) AND (R - 1)) data len"
    by blast
  then show "mem s' = (if 64 \<le> len then neon_memcpy (mem s) (tx_slot s) data (unat len)
      else copy_bytes (mem s) (tx_slot s) data (unat len))"
    and "tx_ring_mem s' = (tx_ring_mem s)(tx_tail s := (tx_ring_mem s (tx_tail s))
        \<lparr>buffer_addr := tx_slot s,
         cmd_type_len := ucast len OR DESC_STATUS_EOP, status := 0\<rparr>)"
    and "rx_ring_mem s' = rx_ring_mem s"
    and "packets_sent s' = packets_sent s + 1"
    by (simp_all add: tx_slot_def)
qed

lemma send_demo_state:
  "send_packet 8 demo_state data len =
     Some (True, send_packet_body demo_state 1 data len)"
  by (simp add: send_packet_def demo_state_def ARM64NICDriver_def)

lemma tx_slot_demo_state: "tx_slot demo_state = 0x200000"
  by (simp add: tx_slot_def demo_state_def ARM64NICDriver_def MAX_PACKET_SIZE_def)

lemma mem_demo_state: "mem demo_state a = ucast a"
  by (simp add: demo_state_def ARM64NICDriver_def)


text \<open>
  Claim C7, as the code has it. For a byte count \<open>n\<close> in the range of \<open>size_t\<close> and a
  destination that does not clobber the source (no destination byte is the place of a
  source byte with a higher index; ranges that do not overlap are the main case),
  \<open>neon_memcpy\<close> leaves the same memory as the byte-wise loop, and byte \<open>i\<close> of the
  destination is byte \<open>i\<close> of the source as it was before the call. Hence after a
  \<open>send_packet\<close> that returns \<open>true\<close>, on data that the buffer slot does not clobber,
  the slot holds the caller's bytes, whether \<open>length\<close> is below 64 or not.
\<close>

theorem neon_memcpy_is_byte_copy:
  "(n < 2 ^ 64 \<and> no_clobber d s n \<longrightarrow>
      neon_memcpy m d s n = copy_bytes m d s n \<and>
      (\<forall>i<n. neon_memcpy m d s n (d + of_nat i) = m (s + of_nat i))) \<and>
   (send_packet R st data len = Some (True, st') \<and> no_clobber (tx_slot st) data (unat len) \<longrightarrow>
      (\<forall>i<unat len. mem st' (tx_slot st + of_nat i) = mem st (data + of_nat i)))"
proof (intro conjI impI allI)
  assume h: "n < 2 ^ 64 \<and> no_clobber d s n"
  then show "neon_memcpy m d s n = copy_bytes m d s n"
    by (simp add: neon_memcpy_copied copy_bytes_copied)
  fix i assume "i < n"
  then show "neon_memcpy m d s n (d + of_nat i) = m (s + of_nat i)"
    using h by (simp add: neon_memcpy_copied copied_inside)
next
  fix i
  assume h: "send_packet R st data len = Some (True, st') \<and>
    no_clobber (tx_slot st) data (unat len)" and i: "i < unat len"
  have n: "unat len \<le> 2 ^ 64" using unat_len_lt [of len] by simp
  from h have sent: "send_packet R st data len = Some (True, st')"
    and nc: "no_clobber (tx_slot st) data (unat len)" by simp_all
  have "mem st' = copied (mem st) (tx_slot st) data (unat len)"
    using nc n by (simp add: send_packet_success_mem(1) [OF sent] neon_memcpy_copied copy_bytes_copied)
  then show "mem st' (tx_slot st + of_nat i) = mem st (data + of_nat i)"
    using i n by (simp add: copied_inside)
qed

theorem neon_memcpy_is_byte_copy_witness:
  "neon_memcpy (\<lambda>a. ucast a) 0x200000 0x1000 100 = copy_bytes (\<lambda>a. ucast a) 0x200000 0x1000 100 \<and>
   neon_memcpy (\<lambda>a. ucast a) 0x200000 0x1000 100 0x200005 = 5 \<and>
   mem (send_packet_body demo_state 1 0x1000 100) 0x200005 = 5"
proof -
  have nc: "no_clobber 0x200000 0x1000 100"
    by (rule no_clobber_disjoint) simp_all
  have a: "(100::nat) < 2 ^ 64 \<and> no_clobber 0x200000 0x1000 100" using nc by simp
  have b: "send_packet 8 demo_state 0x1000 100 = Some (True, send_packet_body demo_state 1 0x1000 100) \<and>
    no_clobber (tx_slot demo_state) 0x1000 (unat (100 :: 16 word))"
    using nc by (simp add: send_demo_state tx_slot_demo_state)
  note inst = neon_memcpy_is_byte_copy [where n = 100 and d = "0x200000" and s = "0x1000"
      and m = "\<lambda>a. ucast a" and R = 8 and st = demo_state and data = "0x1000" and len = 100
      and st' = "send_packet_body demo_state 1 0x1000 100"]
  from inst a have c: "neon_memcpy (\<lambda>a. ucast a) 0x200000 0x1000 100 = copy_bytes (\<lambda>a. ucast a) 0x200000 0x1000 100"
    and d: "\<forall>i<100. neon_memcpy (\<lambda>a. ucast a) 0x200000 0x1000 100 (0x200000 + of_nat i) = ucast (0x1000 + of_nat i :: 64 word)"
    by blast+
  from inst b have e: "\<forall>i<unat (100 :: 16 word). mem (send_packet_body demo_state 1 0x1000 100) (tx_slot demo_state + of_nat i) = mem demo_state (0x1000 + of_nat i)"
    by blast
  from d [rule_format, of 5] have d5: "neon_memcpy (\<lambda>a. ucast a) 0x200000 0x1000 100 0x200005 = 5"
    by simp
  from e [rule_format, of 5] have e5: "mem (send_packet_body demo_state 1 0x1000 100) 0x200005 = 5"
    by (simp add: tx_slot_demo_state mem_demo_state)
  from c d5 e5 show ?thesis by simp
qed

text \<open>
  Without that condition the two copies differ: with the destination one byte above the
  source, the vector loop loads all 64 bytes before it stores any, while the byte-wise
  loop re-reads the byte it has just written. In a memory holding at each address the
  low byte of the address, the byte at address 2 ends as 1 after \<open>neon_memcpy\<close> from
  address 0 to address 1 and as 0 after the byte-wise loop.
\<close>

theorem neon_memcpy_overlap_counterexample:
  "neon_memcpy (\<lambda>a. ucast a) 1 0 64 2 \<noteq> copy_bytes (\<lambda>a. ucast a) 1 0 64 2"
  by (simp add: neon_differs_on_overlap)

section \<open>The copy stays inside the buffer slot\<close>

lemma overlong_overflow:
  "send_packet TX_RING_SIZE demo_state 0x1001 9217 =
     Some (True, send_packet_body demo_state 1 0x1001 9217)"
  "mem (send_packet_body demo_state 1 0x1001 9217) (tx_slot demo_state + ucast MAX_PACKET_SIZE) = 1"
  "mem demo_state (tx_slot demo_state + ucast MAX_PACKET_SIZE) = 0"
proof -
  show "send_packet TX_RING_SIZE demo_state 0x1001 9217 =
     Some (True, send_packet_body demo_state 1 0x1001 9217)"
    by (simp add: send_packet_def demo_state_def ARM64NICDriver_def TX_RING_SIZE_def)
  have nc: "no_clobber (tx_slot demo_state) 0x1001 (unat (9217 :: 16 word))"
    unfolding tx_slot_demo_state by (rule no_clobber_disjoint) simp_all
  have "mem (send_packet_body demo_state 1 0x1001 9217) =
      copied (mem demo_state) (tx_slot demo_state) 0x1001 (unat (9217 :: 16 word))"
    by (rule mem_send_packet_body_copied [OF nc])
  then show "mem (send_packet_body demo_state 1 0x1001 9217)
      (tx_slot demo_state + ucast MAX_PACKET_SIZE) = 1"
    by (simp add: copied_def tx_slot_demo_state mem_demo_state MAX_PACKET_SIZE_def)
  show "mem demo_state (tx_slot demo_state + ucast MAX_PACKET_SIZE) = 0"
    by (simp add: tx_slot_demo_state mem_demo_state MAX_PACKET_SIZE_def)
qed


text \<open>
  Claim C9. When \<open>send_packet\<close> returns \<open>true\<close> for a \<open>length\<close> of at most
  \<open>MAX_PACKET_SIZE\<close>, every byte of memory whose offset from the start of the slot of the
  producer index is not below 9216 is as it was, every TX descriptor other than the one
  at the producer index is as it was, and so is the RX ring; when it returns \<open>false\<close>
  nothing at all has changed. \<open>send_packet\<close> does not
  compare \<open>length\<close> with \<open>MAX_PACKET_SIZE\<close>: there is a call with a longer \<open>length\<close>
  (9217) that returns \<open>true\<close> and changes the first byte of the next slot.
\<close>

theorem send_packet_stays_in_slot:
  "(send_packet R s data len = Some (True, s') \<and> unat len \<le> unat MAX_PACKET_SIZE \<longrightarrow>
      (\<forall>a. \<not> unat (a - tx_slot s) < unat MAX_PACKET_SIZE \<longrightarrow> mem s' a = mem s a) \<and>
      (\<forall>i. i \<noteq> tx_tail s \<longrightarrow> tx_ring_mem s' i = tx_ring_mem s i) \<and>
      rx_ring_mem s' = rx_ring_mem s) \<and>
   (send_packet R s data len = Some (False, s') \<longrightarrow> s' = s) \<and>
   (\<exists>s0 data0 len0 s1.
      send_packet TX_RING_SIZE s0 data0 len0 = Some (True, s1) \<and>
      unat MAX_PACKET_SIZE < unat len0 \<and>
      mem s1 (tx_slot s0 + ucast MAX_PACKET_SIZE) \<noteq> mem s0 (tx_slot s0 + ucast MAX_PACKET_SIZE))"
proof (intro conjI impI allI)
  assume h: "send_packet R s data len = Some (True, s') \<and> unat len \<le> unat MAX_PACKET_SIZE"
  then have sent: "send_packet R s data len = Some (True, s')" by simp
  show "rx_ring_mem s' = rx_ring_mem s" by (rule send_packet_success_mem(3) [OF sent])
  fix a assume "\<not> unat (a - tx_slot s) < unat MAX_PACKET_SIZE"
  then have "\<not> unat (a - tx_slot s) < unat len" using h by simp
  then show "mem s' a = mem s a"
    by (simp add: send_packet_success_mem(1) [OF sent] neon_memcpy_outside copy_bytes_outside)
next
  fix i assume h: "send_packet R s data len = Some (True, s') \<and> unat len \<le> unat MAX_PACKET_SIZE"
    and i: "i \<noteq> tx_tail s"
  then have sent: "send_packet R s data len = Some (True, s')" by simp
  show "tx_ring_mem s' i = tx_ring_mem s i"
    using i by (simp add: send_packet_success_mem(2) [OF sent])
next
  assume "send_packet R s data len = Some (False, s')"
  then show "s' = s" by (rule send_packet_failure)
next
  have big: "unat MAX_PACKET_SIZE < unat (9217 :: 16 word)"
    by (simp add: MAX_PACKET_SIZE_def)
  have c: "send_packet TX_RING_SIZE demo_state 0x1001 9217 =
        Some (True, send_packet_body demo_state 1 0x1001 9217) \<and>
      unat MAX_PACKET_SIZE < unat (9217 :: 16 word) \<and>
      mem (send_packet_body demo_state 1 0x1001 9217) (tx_slot demo_state + ucast MAX_PACKET_SIZE)
        \<noteq> mem demo_state (tx_slot demo_state + ucast MAX_PACKET_SIZE)"
    using big by (simp only: overlong_overflow) simp
  show "\<exists>s0 data0 len0 s1.
      send_packet TX_RING_SIZE s0 data0 len0 = Some (True, s1) \<and>
      unat MAX_PACKET_SIZE < unat len0 \<and>
      mem s1 (tx_slot s0 + ucast MAX_PACKET_SIZE) \<noteq> mem s0 (tx_slot s0 + ucast MAX_PACKET_SIZE)"
    by (rule exI [where x = demo_state], rule exI [where x = "0x1001"],
        rule exI [where x = 9217],
        rule exI [where x = "send_packet_body demo_state 1 0x1001 9217"], rule c)
qed

theorem send_packet_stays_in_slot_witness:
  "mem (send_packet_body demo_state 1 0x1001 9216) (tx_slot demo_state + ucast MAX_PACKET_SIZE) = 0 \<and>
   tx_ring_mem (send_packet_body demo_state 1 0x1001 9216) 1 = zero_tx_desc"
proof -
  have sent: "send_packet 8 demo_state 0x1001 9216 =
      Some (True, send_packet_body demo_state 1 0x1001 9216) \<and>
      unat (9216 :: 16 word) \<le> unat MAX_PACKET_SIZE"
    by (simp add: send_demo_state MAX_PACKET_SIZE_def)
  from send_packet_stays_in_slot [where R = 8 and s = demo_state and data = "0x1001"
      and len = 9216 and s' = "send_packet_body demo_state 1 0x1001 9216"] sent
  have out: "\<forall>a. \<not> unat (a - tx_slot demo_state) < unat MAX_PACKET_SIZE \<longrightarrow>
        mem (send_packet_body demo_state 1 0x1001 9216) a = mem demo_state a"
    and desc: "\<forall>i. i \<noteq> tx_tail demo_state \<longrightarrow>
        tx_ring_mem (send_packet_body demo_state 1 0x1001 9216) i = tx_ring_mem demo_state i"
    by blast+
  from out [rule_format, of "tx_slot demo_state + ucast MAX_PACKET_SIZE"]
  have "mem (send_packet_body demo_state 1 0x1001 9216) (tx_slot demo_state + ucast MAX_PACKET_SIZE) = 0"
    by (simp add: tx_slot_demo_state mem_demo_state MAX_PACKET_SIZE_def)
  moreover from desc [rule_format, of 1]
  have "tx_ring_mem (send_packet_body demo_state 1 0x1001 9216) 1 = zero_tx_desc"
    by (simp add: demo_state_def ARM64NICDriver_def)
  ultimately show ?thesis by simp
qed

section \<open>The receive path\<close>

lemma rx_ready_fields:
  "rx_head rx_ready = 0" "rx_buffers rx_ready = 0x100000" "trace rx_ready = []"
  "packets_received rx_ready = 0"
  "rx_status (rx_ring_mem rx_ready 0) = DESC_STATUS_DD"
  "rx_length (rx_ring_mem rx_ready 0) = 60"
  by (simp_all add: rx_ready_def new_driver_def ARM64NICDriver_def zero_rx_desc_def)


text \<open>
  Claim C3, as the code has it. If the descriptor at the head cursor has no DD flag,
  \<open>receive_packet\<close> returns \<open>false\<close> and the driver state, trace included, is as it
  was: head cursor, received counter, descriptors, and no register is written. If the
  flag is set, \<open>receive_packet\<close> returns \<open>true\<close> with, in its two out-parameters, the
  address of the buffer slot of the head index and the descriptor's length field; it
  clears the descriptor's status word, advances the head cursor by the masked increment,
  writes \<open>REG_RX_DESC_TAIL\<close> (with the masked predecessor of the new head, which on a
  ring of \<open>2 ^ k\<close> slots is the old head) and increments the received counter; nothing
  else changes. It takes no packet handler and calls none: the calls into caller code
  recorded in the trace are the same before and after.
\<close>

theorem receive_packet_contract:
  "(rx_status (rx_ring_mem s (rx_head s)) AND DESC_STATUS_DD = 0 \<longrightarrow>
      receive_packet R s = (None, s)) \<and>
   (rx_status (rx_ring_mem s (rx_head s)) AND DESC_STATUS_DD \<noteq> 0 \<longrightarrow>
      receive_packet R s =
        (Some (rx_buffers s + ucast (rx_head s * MAX_PACKET_SIZE),
               rx_length (rx_ring_mem s (rx_head s))),
         s\<lparr>rx_ring_mem := (rx_ring_mem s)
              (rx_head s := (rx_ring_mem s (rx_head s))\<lparr>rx_status := 0\<rparr>),
           rx_head := ring_next R (rx_head s),
           trace := trace s @
              [RegWrite REG_RX_DESC_TAIL ((ring_next R (rx_head s) - 1) AND (R - 1))],
           packets_received := packets_received s + 1\<rparr>) \<and>
      handler_calls (trace (snd (receive_packet R s))) = handler_calls (trace s)) \<and>
   (k < 32 \<and> R = 2 ^ k \<and> rx_head s < R \<longrightarrow>
      (ring_next R (rx_head s) - 1) AND (R - 1) = rx_head s)"
  by (auto simp: receive_packet_def Let_def write_reg_def emit_def ring_next_def [symmetric]
      handler_calls_append ring_prev_next)

theorem receive_packet_contract_witness:
  "receive_packet 8 new_driver = (None, new_driver) \<and>
   fst (receive_packet 8 rx_ready) = Some (0x100000, 60) \<and>
   rx_head (snd (receive_packet 8 rx_ready)) = 1 \<and>
   packets_received (snd (receive_packet 8 rx_ready)) = 1 \<and>
   rx_status (rx_ring_mem (snd (receive_packet 8 rx_ready)) 0) = 0 \<and>
   (ring_next 8 (rx_head rx_ready) - 1) AND (8 - 1) = rx_head rx_ready"
proof -
  have idle: "rx_status (rx_ring_mem new_driver (rx_head new_driver)) AND DESC_STATUS_DD = 0"
    by (simp add: new_driver_def ARM64NICDriver_def zero_rx_desc_def)
  have ready: "rx_status (rx_ring_mem rx_ready (rx_head rx_ready)) AND DESC_STATUS_DD \<noteq> 0"
    by (simp add: rx_ready_fields DESC_STATUS_DD_def)
  have ring: "(3::nat) < 32 \<and> (8 :: 32 word) = 2 ^ 3 \<and> rx_head rx_ready < 8"
    by (simp add: rx_ready_fields)
  from receive_packet_contract [of new_driver 8 3] idle
  have a: "receive_packet 8 new_driver = (None, new_driver)" by blast
  from receive_packet_contract [of rx_ready 8 3] ready ring
  have b: "receive_packet 8 rx_ready =
        (Some (rx_buffers rx_ready + ucast (rx_head rx_ready * MAX_PACKET_SIZE),
               rx_length (rx_ring_mem rx_ready (rx_head rx_ready))),
         rx_ready\<lparr>rx_ring_mem := (rx_ring_mem rx_ready)
              (rx_head rx_ready := (rx_ring_mem rx_ready (rx_head rx_ready))\<lparr>rx_status := 0\<rparr>),
           rx_head := ring_next 8 (rx_head rx_ready),
           trace := trace rx_ready @
              [RegWrite REG_RX_DESC_TAIL ((ring_next 8 (rx_head rx_ready) - 1) AND (8 - 1))],
           packets_received := packets_received rx_ready + 1\<rparr>)"
    and c: "(ring_next 8 (rx_head rx_ready) - 1) AND (8 - 1) = rx_head rx_ready"
    by blast+
  show ?thesis
    unfolding b using a c by (simp add: rx_ready_fields ring_next_def)
qed

text \<open>
  A receive on a completed descriptor returns the frame and writes the doorbell, and that
  is all it does outside the driver: no handler call is among its effects.
\<close>

theorem receive_packet_calls_no_handler:
  "fst (receive_packet 8 rx_ready) = Some (0x100000, 60) \<and>
   trace (snd (receive_packet 8 rx_ready)) = [RegWrite REG_RX_DESC_TAIL 0] \<and>
   handler_calls (trace (snd (receive_packet 8 rx_ready))) = []"
  by (simp add: receive_packet_def Let_def write_reg_def emit_def rx_ready_fields
      DESC_STATUS_DD_def MAX_PACKET_SIZE_def)

section \<open>The reset wait is bounded\<close>

lemma reads_of_append: "reads_of r (xs @ ys) = reads_of r xs @ reads_of r ys"
  by (induction r xs rule: reads_of.induct) simp_all

lemma reads_of_ctrl_map:
  "reads_of r (map (\<lambda>j. RegRead r (f j)) js) = map f js"
  by (induction js) simp_all

lemma reads_map_bar0 [simp]:
  "reads_of r (trace (snd (map_bar0 env s))) = reads_of r (trace s)"
  by (simp add: map_bar0_def Let_def emit_def reads_of_append)

lemma reads_allocate_rings [simp]:
  "reads_of r (trace (snd (allocate_rings RXN TXN env s))) = reads_of r (trace s)"
  by (simp add: allocate_rings_def Let_def aligned_alloc_def emit_def reads_of_append)

lemma reads_configure_rings [simp]:
  "reads_of r (trace (configure_rings RXN TXN s)) = reads_of r (trace s)"
  by (simp add: configure_rings_def Let_def write_reg_def emit_def reads_of_append)

lemma reads_ctrl_enable_paths [simp]:
  "reads_of REG_CTRL (trace (enable_paths env s)) = reads_of REG_CTRL (trace s)"
  by (simp add: enable_paths_def Let_def write_reg_def read_reg_def emit_def reads_of_append
      REG_CTRL_def REG_RX_CTRL_def REG_TX_CTRL_def)

lemma reads_reset_device:
  "\<exists>k\<le>1000. reads_of REG_CTRL (trace (snd (reset_device env s))) =
      reads_of REG_CTRL (trace s) @ map (ctrl_reads env) [0..<k]"
proof -
  obtain k where k: "k \<le> 1000 - 0"
    and eq: "snd (reset_wait env 0 (write_reg REG_CTRL CTRL_RESET s)) =
       (write_reg REG_CTRL CTRL_RESET s)\<lparr>trace := trace (write_reg REG_CTRL CTRL_RESET s)
          @ map (\<lambda>j. RegRead REG_CTRL (ctrl_reads env j)) [0..<0 + k]\<rparr>"
    using reset_wait_trace [of 0 env "write_reg REG_CTRL CTRL_RESET s"] by blast
  have "reads_of REG_CTRL (trace (snd (reset_device env s))) =
      reads_of REG_CTRL (trace s) @ map (ctrl_reads env) [0..<k]"
    unfolding reset_device_def eq
    by (simp add: reads_of_append reads_of_ctrl_map write_reg_def emit_def)
  with k show ?thesis by auto
qed

lemma reads_initialize_bound:
  "length (reads_of REG_CTRL (trace (snd (initialize RXN TXN env s))))
     \<le> length (reads_of REG_CTRL (trace s)) + 1000"
proof -
  obtain b1 s1 where m: "map_bar0 env s = (b1, s1)" by (cases "map_bar0 env s")
  obtain b2 s2 where r: "reset_device env s1 = (b2, s2)" by (cases "reset_device env s1")
  obtain b3 s3 where a: "allocate_rings RXN TXN env s2 = (b3, s3)"
    by (cases "allocate_rings RXN TXN env s2")
  have t1: "reads_of REG_CTRL (trace s1) = reads_of REG_CTRL (trace s)"
    using reads_map_bar0 [of REG_CTRL env s] m by simp
  have t2: "length (reads_of REG_CTRL (trace s2)) \<le> length (reads_of REG_CTRL (trace s1)) + 1000"
    using reads_reset_device [of env s1] r by auto
  have t3: "reads_of REG_CTRL (trace s3) = reads_of REG_CTRL (trace s2)"
    using reads_allocate_rings [of REG_CTRL RXN TXN env s2] a by simp
  show ?thesis
    using t1 t2 t3 by (simp add: initialize_def m r a Let_def split: bool.splits)
qed

lemma initialize_reset_timeout:
  assumes "0 \<le> open_fd env" and "mmap_result env \<noteq> MAP_FAILED"
    and "\<forall>i<1000. ctrl_reads env i AND CTRL_RESET \<noteq> 0"
  shows "fst (initialize RXN TXN env s) = ResetTimeoutError"
    and "reads_of REG_CTRL (trace (snd (initialize RXN TXN env s)))
           = reads_of REG_CTRL (trace s) @ map (ctrl_reads env) [0..<1000]"
proof -
  obtain s1 where m: "map_bar0 env s = (True, s1)"
    using assms(1,2) by (simp add: map_bar0_def Let_def emit_def)
  have t1: "reads_of REG_CTRL (trace s1) = reads_of REG_CTRL (trace s)"
    using reads_map_bar0 [of REG_CTRL env s] m by simp
  have r: "reset_device env s1 = (False, (write_reg REG_CTRL CTRL_RESET s1)
      \<lparr>trace := trace (write_reg REG_CTRL CTRL_RESET s1)
         @ map (\<lambda>j. RegRead REG_CTRL (ctrl_reads env j)) [0..<1000]\<rparr>)"
    unfolding reset_device_def using assms(3) by (intro reset_wait_never_clears) auto
  show "fst (initialize RXN TXN env s) = ResetTimeoutError"
    by (simp add: initialize_def m r)
  show "reads_of REG_CTRL (trace (snd (initialize RXN TXN env s)))
           = reads_of REG_CTRL (trace s) @ map (ctrl_reads env) [0..<1000]"
    by (simp add: initialize_def m r t1 reads_of_append reads_of_ctrl_map write_reg_def emit_def)
qed

text \<open>
  Claim C6. The reset wait of \<open>initialize\<close> ends for every behaviour of the device: on
  any environment, \<open>initialize\<close> started on a newly constructed driver loads
  \<open>REG_CTRL\<close> at most 1000 times. If the register window maps and the reset bit is set
  at every one of the 1000 polls, \<open>initialize\<close> fails with \<open>ResetTimeoutError\<close>, after
  exactly 1000 polls.
\<close>

theorem initialize_reset_wait_bounded:
  "length (reads_of REG_CTRL
      (trace (snd (initialize RXN TXN env (ARM64NICDriver m rxm txm))))) \<le> 1000 \<and>
   (0 \<le> open_fd env \<and> mmap_result env \<noteq> MAP_FAILED \<and>
    (\<forall>i<1000. ctrl_reads env i AND CTRL_RESET \<noteq> 0) \<longrightarrow>
      fst (initialize RXN TXN env (ARM64NICDriver m rxm txm)) = ResetTimeoutError \<and>
      length (reads_of REG_CTRL
        (trace (snd (initialize RXN TXN env (ARM64NICDriver m rxm txm))))) = 1000)"
proof (intro conjI impI)
  show "length (reads_of REG_CTRL
      (trace (snd (initialize RXN TXN env (ARM64NICDriver m rxm txm))))) \<le> 1000"
    using reads_initialize_bound [of RXN TXN env "ARM64NICDriver m rxm txm"]
    by (simp add: ARM64NICDriver_def)
next
  assume h: "0 \<le> open_fd env \<and> mmap_result env \<noteq> MAP_FAILED \<and>
    (\<forall>i<1000. ctrl_reads env i AND CTRL_RESET \<noteq> 0)"
  then show "fst (initialize RXN TXN env (ARM64NICDriver m rxm txm)) = ResetTimeoutError"
    by (intro initialize_reset_timeout(1)) auto
  from h have "reads_of REG_CTRL (trace (snd (initialize RXN TXN env (ARM64NICDriver m rxm txm))))
      = reads_of REG_CTRL (trace (ARM64NICDriver m rxm txm)) @ map (ctrl_reads env) [0..<1000]"
    by (intro initialize_reset_timeout(2)) auto
  then show "length (reads_of REG_CTRL
        (trace (snd (initialize RXN TXN env (ARM64NICDriver m rxm txm))))) = 1000"
    by (simp add: ARM64NICDriver_def)
qed

theorem initialize_reset_wait_bounded_witness:
  "fst (initialize 8 8 env_stuck
     (ARM64NICDriver (\<lambda>_. 0) (\<lambda>_. zero_rx_desc) (\<lambda>_. zero_tx_desc))) = ResetTimeoutError \<and>
   length (reads_of REG_CTRL (trace (snd (initialize 8 8 env_stuck
     (ARM64NICDriver (\<lambda>_. 0) (\<lambda>_. zero_rx_desc) (\<lambda>_. zero_tx_desc)))))) = 1000"
proof -
  have h: "0 \<le> open_fd env_stuck \<and> mmap_result env_stuck \<noteq> MAP_FAILED \<and>
    (\<forall>i<1000. ctrl_reads env_stuck i AND CTRL_RESET \<noteq> 0)"
    by (simp add: env_stuck_def CTRL_RESET_def MAP_FAILED_def)
  from initialize_reset_wait_bounded
    [of 8 8 env_stuck "\<lambda>_. 0" "\<lambda>_. zero_rx_desc" "\<lambda>_. zero_tx_desc"] h
  show ?thesis by fast
qed

section \<open>Addresses handed to the device\<close>

text \<open>
  Claim C10. \<open>get_physical_addr\<close> returns its argument. Hence, after a successful
  \<open>initialize\<close>, the \<open>buffer_addr\<close> field of every RX descriptor is the virtual address
  of its buffer slot, \<open>rx_buffers_ + i * MAX_PACKET_SIZE\<close>; each pair of ring
  base-address registers is written once, with the low and the high half of the virtual
  address of the ring; and a \<open>send_packet\<close> that returns \<open>true\<close> leaves in the
  descriptor the virtual address of the buffer slot it filled. No translation and no
  check of the address takes place on the way.
\<close>

theorem physical_address_is_virtual:
  "get_physical_addr p = p \<and>
   (fst (initialize RXN TXN env (ARM64NICDriver m rxm txm)) = InitOk \<longrightarrow>
      (\<forall>i<RXN. rx_buffer_addr (rx_ring_mem (snd (initialize RXN TXN env (ARM64NICDriver m rxm txm))) i)
          = rx_buffers (snd (initialize RXN TXN env (ARM64NICDriver m rxm txm)))
              + ucast (i * MAX_PACKET_SIZE)) \<and>
      (\<exists>lo hi.
          writes_of REG_RX_DESC_BASE_LO
            (trace (snd (initialize RXN TXN env (ARM64NICDriver m rxm txm)))) = [lo] \<and>
          writes_of REG_RX_DESC_BASE_HI
            (trace (snd (initialize RXN TXN env (ARM64NICDriver m rxm txm)))) = [hi] \<and>
          base_address lo hi = rx_ring (snd (initialize RXN TXN env (ARM64NICDriver m rxm txm)))) \<and>
      (\<exists>lo hi.
          writes_of REG_TX_DESC_BASE_LO
            (trace (snd (initialize RXN TXN env (ARM64NICDriver m rxm txm)))) = [lo] \<and>
          writes_of REG_TX_DESC_BASE_HI
            (trace (snd (initialize RXN TXN env (ARM64NICDriver m rxm txm)))) = [hi] \<and>
          base_address lo hi = tx_ring (snd (initialize RXN TXN env (ARM64NICDriver m rxm txm))))) \<and>
   (send_packet R s data len = Some (True, s1) \<longrightarrow>
      buffer_addr (tx_ring_mem s1 (tx_tail s)) = tx_buffers s + ucast (tx_tail s * MAX_PACKET_SIZE))"
proof (intro conjI impI)
  show "get_physical_addr p = p" by (simp add: get_physical_addr_def)
next
  let ?c = "ARM64NICDriver m rxm txm"
  assume ok: "fst (initialize RXN TXN env ?c) = InitOk"
  note ptr = initialize_ok_pointers [OF ok]
  have t0: "trace ?c = []" by (simp add: ARM64NICDriver_def)
  show "\<forall>i<RXN. rx_buffer_addr (rx_ring_mem (snd (initialize RXN TXN env ?c)) i)
          = rx_buffers (snd (initialize RXN TXN env ?c)) + ucast (i * MAX_PACKET_SIZE)"
    using initialize_ok_rx_descs [OF ok] by (simp add: ptr)
  have rx: "writes_of REG_RX_DESC_BASE_LO (trace (snd (initialize RXN TXN env ?c)))
        = [ucast (alloc_rx_ring env AND 0xFFFFFFFF)]"
    "writes_of REG_RX_DESC_BASE_HI (trace (snd (initialize RXN TXN env ?c)))
        = [ucast (drop_bit 32 (alloc_rx_ring env))]"
    by (subst initialize_ok_base_registers [OF ok], simp, simp add: t0 reg_defs)+
  have tx: "writes_of REG_TX_DESC_BASE_LO (trace (snd (initialize RXN TXN env ?c)))
        = [ucast (alloc_tx_ring env AND 0xFFFFFFFF)]"
    "writes_of REG_TX_DESC_BASE_HI (trace (snd (initialize RXN TXN env ?c)))
        = [ucast (drop_bit 32 (alloc_tx_ring env))]"
    by (subst initialize_ok_base_registers [OF ok], simp, simp add: t0 reg_defs)+
  show "\<exists>lo hi.
          writes_of REG_RX_DESC_BASE_LO (trace (snd (initialize RXN TXN env ?c))) = [lo] \<and>
          writes_of REG_RX_DESC_BASE_HI (trace (snd (initialize RXN TXN env ?c))) = [hi] \<and>
          base_address lo hi = rx_ring (snd (initialize RXN TXN env ?c))"
    by (rule exI [where x = "ucast (alloc_rx_ring env AND 0xFFFFFFFF)"],
        rule exI [where x = "ucast (drop_bit 32 (alloc_rx_ring env))"])
      (simp only: rx ptr base_address_split simp_thms)
  show "\<exists>lo hi.
          writes_of REG_TX_DESC_BASE_LO (trace (snd (initialize RXN TXN env ?c))) = [lo] \<and>
          writes_of REG_TX_DESC_BASE_HI (trace (snd (initialize RXN TXN env ?c))) = [hi] \<and>
          base_address lo hi = tx_ring (snd (initialize RXN TXN env ?c))"
    by (rule exI [where x = "ucast (alloc_tx_ring env AND 0xFFFFFFFF)"],
        rule exI [where x = "ucast (drop_bit 32 (alloc_tx_ring env))"])
      (simp only: tx ptr base_address_split simp_thms)
next
  assume sent: "send_packet R s data len = Some (True, s1)"
  show "buffer_addr (tx_ring_mem s1 (tx_tail s)) = tx_buffers s + ucast (tx_tail s * MAX_PACKET_SIZE)"
    by (simp add: send_packet_success_mem(2) [OF sent] tx_slot_def)
qed

theorem physical_address_is_virtual_witness:
  "rx_buffer_addr (rx_ring_mem (snd (initialize 8 8 env_ok new_driver)) 3) = 0x100000 + 3 * 9216 \<and>
   writes_of REG_RX_DESC_BASE_LO (trace (snd (initialize 8 8 env_ok new_driver))) = [0x10000] \<and>
   writes_of REG_RX_DESC_BASE_HI (trace (snd (initialize 8 8 env_ok new_driver))) = [0] \<and>
   writes_of REG_TX_DESC_BASE_LO (trace (snd (initialize 8 8 env_ok new_driver))) = [0x20000] \<and>
   buffer_addr (tx_ring_mem (send_packet_body demo_state 1 0x1000 64) 0) = 0x200000"
proof -
  let ?s' = "snd (initialize 8 8 env_ok (ARM64NICDriver (\<lambda>_. 0) (\<lambda>_. zero_rx_desc)
      (\<lambda>_. zero_tx_desc)))"
  have ok: "fst (initialize 8 8 env_ok (ARM64NICDriver (\<lambda>_. 0) (\<lambda>_. zero_rx_desc)
      (\<lambda>_. zero_tx_desc))) = InitOk"
    by (rule initialize_env_ok)
  have sent: "send_packet 8 demo_state 0x1000 64 =
      Some (True, send_packet_body demo_state 1 0x1000 64)"
    by (rule send_demo_state)
  have al: "alloc_rx_buffers env_ok = 0x100000" "alloc_rx_ring env_ok = 0x10000"
    "alloc_tx_ring env_ok = 0x20000"
    by (simp_all add: env_ok_def)
  have ptr: "rx_buffers ?s' = 0x100000" "rx_ring ?s' = 0x10000" "tx_ring ?s' = 0x20000"
    using initialize_ok_pointers [OF ok] al by simp_all
  from physical_address_is_virtual [where RXN = 8 and TXN = 8 and env = env_ok
      and m = "\<lambda>_. 0" and rxm = "\<lambda>_. zero_rx_desc" and txm = "\<lambda>_. zero_tx_desc"
      and R = 8 and s = demo_state and data = "0x1000" and len = 64
      and ?s1.0 = "send_packet_body demo_state 1 0x1000 64"] ok sent
  have descs: "\<forall>i<8. rx_buffer_addr (rx_ring_mem ?s' i) = rx_buffers ?s' + ucast (i * MAX_PACKET_SIZE)"
    and rx: "\<exists>lo hi. writes_of REG_RX_DESC_BASE_LO (trace ?s') = [lo] \<and>
          writes_of REG_RX_DESC_BASE_HI (trace ?s') = [hi] \<and> base_address lo hi = rx_ring ?s'"
    and tx: "\<exists>lo hi. writes_of REG_TX_DESC_BASE_LO (trace ?s') = [lo] \<and>
          writes_of REG_TX_DESC_BASE_HI (trace ?s') = [hi] \<and> base_address lo hi = tx_ring ?s'"
    and txd: "buffer_addr (tx_ring_mem (send_packet_body demo_state 1 0x1000 64) (tx_tail demo_state))
        = tx_buffers demo_state + ucast (tx_tail demo_state * MAX_PACKET_SIZE)"
    by blast+
  from descs have a: "rx_buffer_addr (rx_ring_mem ?s' 3) = 0x100000 + 3 * 9216"
    by (simp add: ptr MAX_PACKET_SIZE_def)
  from rx obtain lo hi where w: "writes_of REG_RX_DESC_BASE_LO (trace ?s') = [lo]"
    "writes_of REG_RX_DESC_BASE_HI (trace ?s') = [hi]" and j: "base_address lo hi = 0x10000"
    by (auto simp: ptr)
  from base_address_parts [of lo hi] j have "lo = 0x10000" "hi = 0" by simp_all
  with w have b: "writes_of REG_RX_DESC_BASE_LO (trace ?s') = [0x10000]"
    "writes_of REG_RX_DESC_BASE_HI (trace ?s') = [0]" by simp_all
  from tx obtain lo' hi' where w': "writes_of REG_TX_DESC_BASE_LO (trace ?s') = [lo']"
    and j': "base_address lo' hi' = 0x20000"
    by (auto simp: ptr)
  from base_address_parts [of lo' hi'] j' have "lo' = 0x20000" by simp
  with w' have c: "writes_of REG_TX_DESC_BASE_LO (trace ?s') = [0x20000]" by simp
  from txd have d: "buffer_addr (tx_ring_mem (send_packet_body demo_state 1 0x1000 64) 0) = 0x200000"
    by (simp add: demo_state_def ARM64NICDriver_def)
  from a b c d show ?thesis by (simp add: new_driver_def)
qed

section \<open>Teardown\<close>

lemma initialized_env_ok:
  "allocs_of (trace (snd (initialize 8 8 env_ok new_driver))) = [0x10000, 0x20000, 0x100000, 0x200000]"
  "mmaps_of (trace (snd (initialize 8 8 env_ok new_driver))) = [(0x7F0000000000, 0x10000)]"
  "frees_of (trace (snd (initialize 8 8 env_ok new_driver))) = []"
  "munmaps_of (trace (snd (initialize 8 8 env_ok new_driver))) = []"
  "rx_ring (snd (initialize 8 8 env_ok new_driver)) = 0x10000"
  "tx_ring (snd (initialize 8 8 env_ok new_driver)) = 0x20000"
  "rx_buffers (snd (initialize 8 8 env_ok new_driver)) = 0x100000"
  "tx_buffers (snd (initialize 8 8 env_ok new_driver)) = 0x200000"
  "bar0_base (snd (initialize 8 8 env_ok new_driver)) = 0x7F0000000000"
  "bar0_size (snd (initialize 8 8 env_ok new_driver)) = 0x10000"
  "initialized (snd (initialize 8 8 env_ok new_driver))"
proof -
  let ?s' = "snd (initialize 8 8 env_ok new_driver)"
  have ok: "fst (initialize 8 8 env_ok (ARM64NICDriver (\<lambda>_. 0) (\<lambda>_. zero_rx_desc)
      (\<lambda>_. zero_tx_desc))) = InitOk"
    by (rule initialize_env_ok)
  have al: "alloc_rx_buffers env_ok = 0x100000" "alloc_rx_ring env_ok = 0x10000"
    "alloc_tx_ring env_ok = 0x20000" "alloc_tx_buffers env_ok = 0x200000"
    "mmap_result env_ok = 0x7F0000000000" "lseek_end env_ok = 0x10000"
    by (simp_all add: env_ok_def)
  note ptr = initialize_ok_pointers [OF ok, folded new_driver_def, unfolded al]
  show p: "rx_ring ?s' = 0x10000" "tx_ring ?s' = 0x20000" "rx_buffers ?s' = 0x100000"
    "tx_buffers ?s' = 0x200000" "bar0_base ?s' = 0x7F0000000000" "bar0_size ?s' = 0x10000"
    "initialized ?s'"
    by (rule ptr)+
  have "mmap_result env_ok \<noteq> 0" by (simp add: al)
  then have "owns_resources ?s'"
    unfolding new_driver_def by (rule owns_initialize)
  then show "allocs_of (trace ?s') = [0x10000, 0x20000, 0x100000, 0x200000]"
    "mmaps_of (trace ?s') = [(0x7F0000000000, 0x10000)]"
    "frees_of (trace ?s') = []" "munmaps_of (trace ?s') = []"
    by (simp_all add: owns_resources_def p MAP_FAILED_def)
qed


lemma resources_initialize_timeout:
  assumes "fst (initialize RXN TXN env s) = ResetTimeoutError"
  shows "allocs_of (trace (snd (initialize RXN TXN env s))) = allocs_of (trace s)"
    and "mmaps_of (trace (snd (initialize RXN TXN env s))) = mmaps_of (trace s) @
      [(mmap_result env, lseek_end env)]"
    and "frees_of (trace (snd (initialize RXN TXN env s))) = frees_of (trace s)"
    and "munmaps_of (trace (snd (initialize RXN TXN env s))) = munmaps_of (trace s)"
proof -
  from assms have f: "fst (map_bar0 env s)"
    "\<not> fst (reset_device env (snd (map_bar0 env s)))"
    by (simp_all add: fst_initialize Let_def split: if_splits)
  then have e: "snd (initialize RXN TXN env s) = snd (reset_device env (snd (map_bar0 env s)))"
    by (simp add: snd_initialize Let_def)
  show "allocs_of (trace (snd (initialize RXN TXN env s))) = allocs_of (trace s)"
    "mmaps_of (trace (snd (initialize RXN TXN env s))) = mmaps_of (trace s) @
      [(mmap_result env, lseek_end env)]"
    "frees_of (trace (snd (initialize RXN TXN env s))) = frees_of (trace s)"
    "munmaps_of (trace (snd (initialize RXN TXN env s))) = munmaps_of (trace s)"
    unfolding e using f(1)
    by (simp_all add: resources_reset_device trace_map_bar0 resources_append)
qed

lemma held_without_release:
  assumes "frees_of tr = []" and "munmaps_of tr = []"
  shows "live_blocks tr = allocs_of tr" and "mapped_windows tr = map fst (mmaps_of tr)"
  using assms
  by (simp_all add: live_blocks_def mapped_windows_def heap_after_no_frees
      windows_after_no_munmaps)

text \<open>
  A second \<open>initialize\<close> on the same object, after a first one that timed out in the
  reset wait: the register window of the first attempt is still mapped, and
  \<open>bar0_base_\<close> now points to the second one.
\<close>

lemma retried_initialize:
  "fst (initialize 8 8 env_stuck new_driver) = ResetTimeoutError"
  "fst (initialize 8 8 env_retry (snd (initialize 8 8 env_stuck new_driver))) = InitOk"
  "live_blocks (trace (snd (initialize 8 8 env_retry (snd (initialize 8 8 env_stuck new_driver)))))
     = [0x10000, 0x20000, 0x100000, 0x200000]"
  "mapped_windows (trace (snd (initialize 8 8 env_retry
       (snd (initialize 8 8 env_stuck new_driver)))))
     = [0x7F0000000000, 0x7F0000100000]"
  "munmaps_of (trace (snd (initialize 8 8 env_retry
       (snd (initialize 8 8 env_stuck new_driver))))) = []"
proof -
  let ?s1 = "snd (initialize 8 8 env_stuck new_driver)"
  let ?s2 = "snd (initialize 8 8 env_retry ?s1)"
  show t: "fst (initialize 8 8 env_stuck new_driver) = ResetTimeoutError"
    by (rule initialize_reset_timeout(1))
      (simp_all add: env_stuck_def MAP_FAILED_def CTRL_RESET_def)
  show ok: "fst (initialize 8 8 env_retry ?s1) = InitOk"
    by (rule initialize_succeeds [where j = 0])
      (simp_all add: env_retry_def env_ok_def MAP_FAILED_def)
  have r1: "allocs_of (trace ?s1) = []" "mmaps_of (trace ?s1) = [(0x7F0000000000, 0x10000)]"
    "frees_of (trace ?s1) = []" "munmaps_of (trace ?s1) = []"
    unfolding resources_initialize_timeout [OF t]
    by (simp_all add: new_driver_def ARM64NICDriver_def env_stuck_def)
  have r2: "allocs_of (trace ?s2) = [0x10000, 0x20000, 0x100000, 0x200000]"
    "mmaps_of (trace ?s2) = [(0x7F0000000000, 0x10000), (0x7F0000100000, 0x10000)]"
    "frees_of (trace ?s2) = []" "munmaps_of (trace ?s2) = []"
    unfolding resources_initialize_ok [OF ok] r1
    by (simp_all add: env_retry_def env_ok_def)
  show "live_blocks (trace ?s2) = [0x10000, 0x20000, 0x100000, 0x200000]"
    "mapped_windows (trace ?s2) = [0x7F0000000000, 0x7F0000100000]"
    using held_without_release [OF r2(3,4)] by (simp_all add: r2)
  show "munmaps_of (trace ?s2) = []" by (rule r2(4))
qed


lemma rx_ring_env_partial: "rx_ring (snd (initialize RXN TXN env_partial s)) = 0x10000"
proof -
  have m: "fst (map_bar0 env_partial s)"
    by (simp add: map_bar0_def Let_def emit_def env_partial_def env_ok_def MAP_FAILED_def)
  have "ctrl_reads env_partial 0 AND CTRL_RESET = 0"
    by (simp add: env_partial_def env_ok_def)
  then have r: "fst (reset_device env_partial (snd (map_bar0 env_partial s)))"
    unfolding reset_device_def by (intro reset_wait_clears [where j = 0]) simp_all
  have a: "alloc_rx_ring env_partial = 0x10000"
    by (simp add: env_partial_def env_ok_def)
  have n: "\<not> fst (allocate_rings RXN TXN env_partial
      (snd (reset_device env_partial (snd (map_bar0 env_partial s)))))"
    by (simp add: allocate_rings_def Let_def aligned_alloc_def emit_def env_partial_def env_ok_def)
  show ?thesis
    using m r n by (simp add: snd_initialize Let_def allocate_rings_pointers a)
qed

text \<open>
  Claim C5, as the code has it. \<open>cleanup\<close> runs once, from the destructor. After the
  first \<open>initialize\<close> on a newly constructed object has ended in any way, success or
  failure at any step, on any environment in which \<open>mmap\<close> does not return the null
  address, \<open>cleanup\<close> returns: it changes no member of the driver, the blocks it frees
  are exactly the blocks that \<open>initialize\<close> allocated, each once and in the order of
  allocation, the regions it unmaps are exactly the regions that \<open>initialize\<close> mapped,
  and afterwards the process holds no block and no mapped region, so nothing is leaked
  and nothing is released twice. After a successful \<open>initialize\<close> it first stores 0 to
  \<open>REG_RX_CTRL\<close> and \<open>REG_TX_CTRL\<close>.

  \<open>cleanup\<close> does not reset the pointers it has released nor the \<open>initialized_\<close> flag,
  so it is not idempotent: run again on the state it left, it stores to the unmapped
  register window if \<open>initialize\<close> had succeeded, and otherwise frees the released RX
  ring again if \<open>initialize\<close> had allocated it.
\<close>

theorem cleanup_releases_what_was_acquired:
  assumes "mmap_result env \<noteq> 0"
  shows "\<exists>s'. cleanup (snd (initialize RXN TXN env (ARM64NICDriver m rxm txm))) = Inr s' \<and>
     s' = (snd (initialize RXN TXN env (ARM64NICDriver m rxm txm)))\<lparr>trace := trace s'\<rparr> \<and>
     frees_of (trace s') =
       allocs_of (trace (snd (initialize RXN TXN env (ARM64NICDriver m rxm txm)))) \<and>
     munmaps_of (trace s') =
       mmaps_of (trace (snd (initialize RXN TXN env (ARM64NICDriver m rxm txm)))) \<and>
     allocs_of (trace s') =
       allocs_of (trace (snd (initialize RXN TXN env (ARM64NICDriver m rxm txm)))) \<and>
     mmaps_of (trace s') =
       mmaps_of (trace (snd (initialize RXN TXN env (ARM64NICDriver m rxm txm)))) \<and>
     live_blocks (trace s') = [] \<and> mapped_windows (trace s') = [] \<and>
     (fst (initialize RXN TXN env (ARM64NICDriver m rxm txm)) = InitOk \<longrightarrow>
        last (writes_of REG_RX_CTRL (trace s')) = 0 \<and>
        last (writes_of REG_TX_CTRL (trace s')) = 0 \<and>
        cleanup s' = Inl SegmentationFault) \<and>
     (fst (initialize RXN TXN env (ARM64NICDriver m rxm txm)) \<noteq> InitOk \<and> rx_ring s' \<noteq> 0 \<longrightarrow>
        cleanup s' = Inl InvalidFree)"
proof -
  let ?c = "ARM64NICDriver m rxm txm"
  let ?s0 = "snd (initialize RXN TXN env ?c)"
  have o: "owns_resources ?s0" by (rule owns_initialize [OF assms])
  have i: "initialized ?s0 \<longleftrightarrow> fst (initialize RXN TXN env ?c) = InitOk"
    unfolding initialized_initialize by (simp add: ARM64NICDriver_def)
  have w: "initialized ?s0 \<longrightarrow> bar0_base ?s0 \<noteq> 0 \<and> bar0_base ?s0 \<noteq> MAP_FAILED"
    unfolding i using initialize_ok_pointers(5) [of RXN TXN env ?c]
      initialize_ok_window [of RXN TXN env ?c] assms by simp
  from cleanup_owned [OF o w] obtain s' where c: "cleanup ?s0 = Inr s'"
    and f: "s' = ?s0\<lparr>trace := trace s'\<rparr>"
    and r: "frees_of (trace s') = allocs_of (trace ?s0)"
      "munmaps_of (trace s') = mmaps_of (trace ?s0)"
      "allocs_of (trace s') = allocs_of (trace ?s0)"
      "mmaps_of (trace s') = mmaps_of (trace ?s0)"
    and h: "live_blocks (trace s') = []" "mapped_windows (trace s') = []"
    and v: "writes_of REG_RX_CTRL (trace s') =
        writes_of REG_RX_CTRL (trace ?s0) @ (if initialized ?s0 then [0] else [])"
      "writes_of REG_TX_CTRL (trace s') =
        writes_of REG_TX_CTRL (trace ?s0) @ (if initialized ?s0 then [0] else [])"
    by blast
  have m: "initialized s' = initialized ?s0" "rx_ring s' = rx_ring ?s0"
    by (subst f, simp)+
  have ok: "last (writes_of REG_RX_CTRL (trace s')) = 0 \<and>
      last (writes_of REG_TX_CTRL (trace s')) = 0 \<and> cleanup s' = Inl SegmentationFault"
    if "fst (initialize RXN TXN env ?c) = InitOk"
  proof -
    from that have "initialized ?s0" by (simp add: i)
    moreover from this have "cleanup s' = Inl SegmentationFault"
      by (intro cleanup_store_faults) (simp_all add: m h)
    ultimately show ?thesis by (simp add: v)
  qed
  have ko: "cleanup s' = Inl InvalidFree"
    if "fst (initialize RXN TXN env ?c) \<noteq> InitOk \<and> rx_ring s' \<noteq> 0"
    using that by (intro cleanup_free_faults) (simp_all add: m h i)
  show ?thesis
    by (rule exI [where x = s']) (use c f r h ok ko in blast)
qed

theorem cleanup_releases_what_was_acquired_witness:
  "(\<exists>s'. cleanup (snd (initialize 8 8 env_ok new_driver)) = Inr s' \<and>
      frees_of (trace s') = [0x10000, 0x20000, 0x100000, 0x200000] \<and>
      munmaps_of (trace s') = [(0x7F0000000000, 0x10000)] \<and>
      live_blocks (trace s') = [] \<and> mapped_windows (trace s') = [] \<and>
      last (writes_of REG_RX_CTRL (trace s')) = 0 \<and>
      cleanup s' = Inl SegmentationFault) \<and>
   fst (initialize 8 8 env_partial new_driver) = AllocationError \<and>
   (\<exists>s'. cleanup (snd (initialize 8 8 env_partial new_driver)) = Inr s' \<and>
      frees_of (trace s') = allocs_of (trace s') \<and>
      munmaps_of (trace s') = mmaps_of (trace s') \<and>
      live_blocks (trace s') = [] \<and> mapped_windows (trace s') = [] \<and>
      cleanup s' = Inl InvalidFree)"
proof -
  have ok: "fst (initialize 8 8 env_ok new_driver) = InitOk"
    by (rule initialize_env_ok)
  have nz: "mmap_result env_ok \<noteq> 0" "mmap_result env_partial \<noteq> 0"
    by (simp_all add: env_partial_def env_ok_def)
  from cleanup_releases_what_was_acquired [OF nz(1), where RXN = 8 and TXN = 8
      and m = "\<lambda>_. 0" and rxm = "\<lambda>_. zero_rx_desc" and txm = "\<lambda>_. zero_tx_desc",
      folded new_driver_def] ok
  have a: "\<exists>s'. cleanup (snd (initialize 8 8 env_ok new_driver)) = Inr s' \<and>
      frees_of (trace s') = [0x10000, 0x20000, 0x100000, 0x200000] \<and>
      munmaps_of (trace s') = [(0x7F0000000000, 0x10000)] \<and>
      live_blocks (trace s') = [] \<and> mapped_windows (trace s') = [] \<and>
      last (writes_of REG_RX_CTRL (trace s')) = 0 \<and>
      cleanup s' = Inl SegmentationFault"
    unfolding initialized_env_ok by blast
  from cleanup_releases_what_was_acquired [OF nz(2), where RXN = 8 and TXN = 8
      and m = "\<lambda>_. 0" and rxm = "\<lambda>_. zero_rx_desc" and txm = "\<lambda>_. zero_tx_desc",
      folded new_driver_def]
  obtain s' where c: "cleanup (snd (initialize 8 8 env_partial new_driver)) = Inr s'"
    and f: "s' = (snd (initialize 8 8 env_partial new_driver))\<lparr>trace := trace s'\<rparr>"
    and r: "frees_of (trace s') = allocs_of (trace s')"
      "munmaps_of (trace s') = mmaps_of (trace s')"
      "live_blocks (trace s') = []" "mapped_windows (trace s') = []"
    and k: "fst (initialize 8 8 env_partial new_driver) \<noteq> InitOk \<and> rx_ring s' \<noteq> 0 \<longrightarrow>
        cleanup s' = Inl InvalidFree"
    by metis
  have "rx_ring s' = 0x10000"
    by (subst f) (simp add: rx_ring_env_partial)
  with k have "cleanup s' = Inl InvalidFree"
    by (simp add: initialize_env_partial)
  with c r have b: "\<exists>s'. cleanup (snd (initialize 8 8 env_partial new_driver)) = Inr s' \<and>
      frees_of (trace s') = allocs_of (trace s') \<and>
      munmaps_of (trace s') = mmaps_of (trace s') \<and>
      live_blocks (trace s') = [] \<and> mapped_windows (trace s') = [] \<and>
      cleanup s' = Inl InvalidFree"
    by blast
  show ?thesis
    using a b initialize_env_partial [of 8 8 new_driver] by blast
qed

text \<open>
  Teardown is therefore not idempotent, and it does not cover every state of the
  device. After a successful \<open>initialize\<close> the first \<open>cleanup\<close> disables both paths,
  unmaps the register window and frees the four blocks, and a second \<open>cleanup\<close> does not
  return: its first step is a store to the window that the first one unmapped. And
  after an \<open>initialize\<close> that timed out and was tried again on the same object, two
  register windows are mapped and \<open>cleanup\<close> unmaps only the second: the first one is
  leaked.
\<close>

theorem cleanup_twice_faults:
  "cleanup (snd (initialize 8 8 env_ok new_driver)) =
     Inr ((snd (initialize 8 8 env_ok new_driver))
       \<lparr>trace := trace (snd (initialize 8 8 env_ok new_driver)) @
          [RegWrite REG_RX_CTRL 0, RegWrite REG_TX_CTRL 0,
           Munmap 0x7F0000000000 0x10000,
           Free 0x10000, Free 0x20000, Free 0x100000, Free 0x200000]\<rparr>) \<and>
   and_then (cleanup (snd (initialize 8 8 env_ok new_driver))) cleanup
     = Inl SegmentationFault \<and>
   fst (initialize 8 8 env_stuck new_driver) = ResetTimeoutError \<and>
   fst (initialize 8 8 env_retry (snd (initialize 8 8 env_stuck new_driver))) = InitOk \<and>
   mapped_windows (trace (snd (initialize 8 8 env_retry
       (snd (initialize 8 8 env_stuck new_driver)))))
     = [0x7F0000000000, 0x7F0000100000] \<and>
   (\<exists>s'. cleanup (snd (initialize 8 8 env_retry (snd (initialize 8 8 env_stuck new_driver))))
        = Inr s' \<and>
      munmaps_of (trace s') = [(0x7F0000100000, 0x10000)] \<and>
      mapped_windows (trace s') = [0x7F0000000000])"
proof -
  let ?s0 = "snd (initialize 8 8 env_ok new_driver)"
  let ?s1 = "snd (initialize 8 8 env_stuck new_driver)"
  let ?s2 = "snd (initialize 8 8 env_retry ?s1)"
  have h0: "live_blocks (trace ?s0) = [0x10000, 0x20000, 0x100000, 0x200000]"
    "mapped_windows (trace ?s0) = [0x7F0000000000]"
    using held_without_release [OF initialized_env_ok(3,4)]
    by (simp_all add: initialized_env_ok)
  have l0: "live_blocks (trace ?s0) =
      filter (\<lambda>p. p \<noteq> 0) [rx_ring ?s0, tx_ring ?s0, rx_buffers ?s0, tx_buffers ?s0]"
    by (simp add: h0 initialized_env_ok)
  have w0: "initialized ?s0 \<longrightarrow> bar0_base ?s0 \<in> set (mapped_windows (trace ?s0))"
    by (simp add: h0 initialized_env_ok)
  note c0 = cleanup_returns [OF l0 w0]
  have a: "cleanup ?s0 = Inr (?s0\<lparr>trace := trace ?s0 @
          [RegWrite REG_RX_CTRL 0, RegWrite REG_TX_CTRL 0,
           Munmap 0x7F0000000000 0x10000,
           Free 0x10000, Free 0x20000, Free 0x100000, Free 0x200000]\<rparr>)"
    unfolding c0(1) by (simp add: initialized_env_ok MAP_FAILED_def)
  have "mapped_windows (trace ?s0 @
          [RegWrite REG_RX_CTRL 0, RegWrite REG_TX_CTRL 0,
           Munmap 0x7F0000000000 0x10000,
           Free 0x10000, Free 0x20000, Free 0x100000, Free 0x200000]) = []"
    using c0(3) by (simp add: initialized_env_ok MAP_FAILED_def h0)
  then have b: "and_then (cleanup ?s0) cleanup = Inl SegmentationFault"
    unfolding a and_then_simps
    by (intro cleanup_store_faults) (simp_all add: initialized_env_ok)
  have ok: "fst (initialize 8 8 env_retry ?s1) = InitOk" by (rule retried_initialize(2))
  have p2: "rx_ring ?s2 = 0x10000" "tx_ring ?s2 = 0x20000" "rx_buffers ?s2 = 0x100000"
    "tx_buffers ?s2 = 0x200000" "bar0_base ?s2 = 0x7F0000100000" "bar0_size ?s2 = 0x10000"
    "initialized ?s2"
    using initialize_ok_pointers [OF ok] by (simp_all add: env_retry_def env_ok_def)
  have l2: "live_blocks (trace ?s2) =
      filter (\<lambda>p. p \<noteq> 0) [rx_ring ?s2, tx_ring ?s2, rx_buffers ?s2, tx_buffers ?s2]"
    by (simp add: retried_initialize(3) p2)
  have w2: "initialized ?s2 \<longrightarrow> bar0_base ?s2 \<in> set (mapped_windows (trace ?s2))"
    by (simp add: retried_initialize(4) p2)
  note c2 = cleanup_returns [OF l2 w2]
  have c': "cleanup ?s2 = Inr (?s2\<lparr>trace := trace ?s2 @
          [RegWrite REG_RX_CTRL 0, RegWrite REG_TX_CTRL 0,
           Munmap 0x7F0000100000 0x10000,
           Free 0x10000, Free 0x20000, Free 0x100000, Free 0x200000]\<rparr>)"
    unfolding c2(1) by (simp add: p2 MAP_FAILED_def)
  have mw: "mapped_windows (trace ?s2 @
          [RegWrite REG_RX_CTRL 0, RegWrite REG_TX_CTRL 0,
           Munmap 0x7F0000100000 0x10000,
           Free 0x10000, Free 0x20000, Free 0x100000, Free 0x200000]) = [0x7F0000000000]"
    using c2(3) by (simp add: p2 MAP_FAILED_def retried_initialize(4))
  have mu: "munmaps_of (trace ?s2 @
          [RegWrite REG_RX_CTRL 0, RegWrite REG_TX_CTRL 0,
           Munmap 0x7F0000100000 0x10000,
           Free 0x10000, Free 0x20000, Free 0x100000, Free 0x200000])
      = [(0x7F0000100000, 0x10000)]"
    by (simp add: resources_append retried_initialize(5))
  have c: "\<exists>s'. cleanup ?s2 = Inr s' \<and>
      munmaps_of (trace s') = [(0x7F0000100000, 0x10000)] \<and>
      mapped_windows (trace s') = [0x7F0000000000]"
    unfolding c' using mw mu by simp
  from a b c retried_initialize(1,2,4) show ?thesis by blast
qed

end
